theory Spec2Isabelle
  imports Complex_Main "HOL-Library.Multiset"
begin

section \<open>Python values and exceptions\<close>

text \<open>
  Python floats are modelled by the reals; Python and numpy exceptions by the constructors
  of \<open>error\<close>. A function that can raise returns \<open>error + 'a\<close>, with \<open>Inl\<close> for the
  exception.
\<close>

datatype error =
  ZeroDivisionError | IndexError | ValueError | UnboundLocalError | TypeError | LinAlgError

text \<open>Running a fallible function over a list stops at the first exception.\<close>

fun map_err :: "('a \<Rightarrow> error + 'b) \<Rightarrow> 'a list \<Rightarrow> error + 'b list" where
  "map_err f [] = Inr []"
| "map_err f (x # xs) =
     (case f x of
        Inl e \<Rightarrow> Inl e
      | Inr v \<Rightarrow> (case map_err f xs of Inl e \<Rightarrow> Inl e | Inr vs \<Rightarrow> Inr (v # vs)))"

section \<open>copula_calculation.py\<close>

subsection \<open>find_marginal_cdf\<close>

text \<open>
  \<open>statsmodels\<close>' \<open>ECDF(x)(t)\<close>: the fraction of the sample that is at most \<open>t\<close>. Its
  constructor computes \<open>1./nobs\<close>, which raises on an empty sample.
\<close>

definition ECDF :: "real list \<Rightarrow> real \<Rightarrow> error + real" where
  "ECDF x t =
     (if length x = 0 then Inl ZeroDivisionError
      else Inr (real (length (filter (\<lambda>v. v \<le> t) x)) / real (length x)))"

text \<open>
  An argument or result of a function wrapped by \<open>np.vectorize\<close>: a scalar or a
  one-dimensional array. The wrapper applies the function element by element, and refuses
  an array of size 0 because no output type was given.
\<close>

datatype nd = Scalar real | Array "real list"

fun vectorize :: "(real \<Rightarrow> error + real) \<Rightarrow> nd \<Rightarrow> error + nd" where
  "vectorize f (Scalar t) = (case f t of Inl e \<Rightarrow> Inl e | Inr v \<Rightarrow> Inr (Scalar v))"
| "vectorize f (Array ts) =
     (if ts = [] then Inl ValueError
      else (case map_err f ts of Inl e \<Rightarrow> Inl e | Inr vs \<Rightarrow> Inr (Array vs)))"

text \<open>\<open>kwargs.get('prob_floor', 0.00001)\<close> and \<open>kwargs.get('prob_cap', 0.99999)\<close>.\<close>

definition prob_floor :: "(string \<rightharpoonup> real) \<Rightarrow> real" where
  "prob_floor kwargs = (case kwargs ''prob_floor'' of None \<Rightarrow> 1 / 100000 | Some v \<Rightarrow> v)"

definition prob_cap :: "(string \<rightharpoonup> real) \<Rightarrow> real" where
  "prob_cap kwargs = (case kwargs ''prob_cap'' of None \<Rightarrow> 99999 / 100000 | Some v \<Rightarrow> v)"

text \<open>The lambda \<open>fitted_cdf\<close>: the ECDF is built when the lambda is called.\<close>

definition fitted_cdf :: "real list \<Rightarrow> (string \<rightharpoonup> real) \<Rightarrow> real \<Rightarrow> error + real" where
  "fitted_cdf x kwargs data =
     (case ECDF x data of
        Inl e \<Rightarrow> Inl e
      | Inr p \<Rightarrow> Inr (max (min p (prob_cap kwargs)) (prob_floor kwargs)))"

definition find_marginal_cdf ::
  "real list \<Rightarrow> bool \<Rightarrow> (string \<rightharpoonup> real) \<Rightarrow> (nd \<Rightarrow> error + nd) option" where
  "find_marginal_cdf x empirical kwargs =
     (if empirical then Some (vectorize (fitted_cdf x kwargs)) else None)"

subsection \<open>Information criteria\<close>

text \<open>
  \<open>aic\<close>: \<open>n\<close> and \<open>k\<close> are Python integers, \<open>/\<close> is true division and raises when the
  divisor \<open>n - k - 1\<close> is zero.
\<close>

definition aic :: "real \<Rightarrow> int \<Rightarrow> int \<Rightarrow> error + real" where
  "aic log_likelihood n k =
     (if n - k - 1 = 0 then Inl ZeroDivisionError
      else Inr ((real_of_int (2 * n) / real_of_int (n - k - 1)) * real_of_int k
                - 2 * log_likelihood))"

subsection \<open>numpy floating-point values\<close>

text \<open>
  A float as numpy produces it: a real number, an infinity or not-a-number. \<open>np.log\<close> of
  zero is \<open>-inf\<close> and of a negative number \<open>nan\<close>; numpy warns and does not raise.
\<close>

datatype npfloat = Fin real | PInf | NInf | NaN

definition np_log :: "real \<Rightarrow> npfloat" where
  "np_log v = (if 0 < v then Fin (ln v) else if v = 0 then NInf else NaN)"

fun np_add :: "npfloat \<Rightarrow> npfloat \<Rightarrow> npfloat" where
  "np_add NaN _ = NaN"
| "np_add _ NaN = NaN"
| "np_add PInf NInf = NaN"
| "np_add NInf PInf = NaN"
| "np_add PInf _ = PInf"
| "np_add _ PInf = PInf"
| "np_add NInf _ = NInf"
| "np_add _ NInf = NInf"
| "np_add (Fin a) (Fin b) = Fin (a + b)"

primrec np_sum :: "npfloat list \<Rightarrow> npfloat" where
  "np_sum [] = Fin 0"
| "np_sum (v # vs) = np_add v (np_sum vs)"

subsection \<open>The collaborators of the fitter\<close>

text \<open>
  The keyword arguments of \<open>Switcher.choose_copula\<close>, and the functions the fitter calls
  outside this module, taken as parameters: \<open>scipy.stats.kendalltau\<close>, the switcher of
  \<open>copula_generate\<close> with the methods \<open>theta_hat\<close> and \<open>c\<close> (the density) of the
  copula it returns, the quantile functions \<open>ss.norm.ppf\<close> and \<open>ss.t(df=nu).ppf\<close>, and
  \<open>sklearn\<close>'s \<open>EmpiricalCovariance\<close>.
\<close>

record copula_args =
  arg_copula_name :: string
  arg_theta :: "real option"
  arg_cov :: "real list list option"
  arg_nu :: "real option"

record 'c collaborators =
  kendalltau :: "real list \<Rightarrow> real list \<Rightarrow> error + real"
  choose_copula :: "copula_args \<Rightarrow> error + 'c"
  theta_hat :: "'c \<Rightarrow> real \<Rightarrow> error + real"
  density :: "'c \<Rightarrow> real \<Rightarrow> real \<Rightarrow> real"
  norm_ppf :: "real \<Rightarrow> real"
  t_ppf :: "real option \<Rightarrow> real \<Rightarrow> error + real"
  empirical_covariance :: "(real \<times> real) list \<Rightarrow> error + real list list"

subsection \<open>ml_theta_hat\<close>

definition dud_cov :: "real list list" where
  "dud_cov = [[1, 0], [0, 1]]"

definition ml_theta_hat ::
  "'c collaborators \<Rightarrow> real list \<Rightarrow> real list \<Rightarrow> string \<Rightarrow> error + real" where
  "ml_theta_hat env x y copula_name =
     (case kendalltau env x y of
        Inl e \<Rightarrow> Inl e
      | Inr tau \<Rightarrow>
     (case choose_copula env \<lparr>arg_copula_name = copula_name, arg_theta = None,
                               arg_cov = Some dud_cov, arg_nu = None\<rparr> of
        Inl e \<Rightarrow> Inl e
      | Inr my_copula \<Rightarrow> theta_hat env my_copula tau))"

subsection \<open>log_ml\<close>

definition theta_copula_names :: "string list" where
  "theta_copula_names = [''Gumbel'', ''Clayton'', ''Frank'', ''Joe'', ''N13'', ''N14'']"

text \<open>
  \<open>np.array([x, y]).reshape(2, -1).T\<close>: the pairs \<open>(x_i, y_i)\<close>; sequences of different
  lengths make no rectangular array.
\<close>

definition unif_data :: "real list \<Rightarrow> real list \<Rightarrow> error + (real \<times> real) list" where
  "unif_data x y = (if length x = length y then Inr (zip x y) else Inl ValueError)"

text \<open>
  The three \<open>if\<close> statements that bind \<open>my_copula\<close>, in the order of the source. The
  variable stays unbound (\<open>None\<close>) when no statement applies.
\<close>

definition fit_theta_copula ::
  "'c collaborators \<Rightarrow> real list \<Rightarrow> real list \<Rightarrow> string \<Rightarrow> 'c option \<Rightarrow> error + 'c option" where
  "fit_theta_copula env x y copula_name my_copula =
     (if copula_name \<in> set theta_copula_names then
        (case ml_theta_hat env x y copula_name of
           Inl e \<Rightarrow> Inl e
         | Inr theta \<Rightarrow>
        (case choose_copula env \<lparr>arg_copula_name = copula_name, arg_theta = Some theta,
                                  arg_cov = None, arg_nu = None\<rparr> of
           Inl e \<Rightarrow> Inl e
         | Inr c \<Rightarrow> Inr (Some c)))
      else Inr my_copula)"

definition fit_gaussian_copula ::
  "'c collaborators \<Rightarrow> real list \<Rightarrow> real list \<Rightarrow> string \<Rightarrow> 'c option \<Rightarrow> error + 'c option" where
  "fit_gaussian_copula env x y copula_name my_copula =
     (if copula_name = ''Gaussian'' then
        (case unif_data x y of
           Inl e \<Rightarrow> Inl e
         | Inr ud \<Rightarrow>
        (let value_data = map (\<lambda>(u, v). (norm_ppf env u, norm_ppf env v)) ud in
         case empirical_covariance env value_data of
           Inl e \<Rightarrow> Inl e
         | Inr cov_hat \<Rightarrow>
        (case choose_copula env \<lparr>arg_copula_name = copula_name, arg_theta = None,
                                  arg_cov = Some cov_hat, arg_nu = None\<rparr> of
           Inl e \<Rightarrow> Inl e
         | Inr c \<Rightarrow> Inr (Some c))))
      else Inr my_copula)"

definition fit_student_copula ::
  "'c collaborators \<Rightarrow> real list \<Rightarrow> real list \<Rightarrow> string \<Rightarrow> real option \<Rightarrow> 'c option
     \<Rightarrow> error + 'c option" where
  "fit_student_copula env x y copula_name nu my_copula =
     (if copula_name = ''Student'' then
        (case unif_data x y of
           Inl e \<Rightarrow> Inl e
         | Inr ud \<Rightarrow>
        (case map_err (\<lambda>(u, v).
                 case t_ppf env nu u of
                   Inl e \<Rightarrow> Inl e
                 | Inr a \<Rightarrow> (case t_ppf env nu v of Inl e \<Rightarrow> Inl e | Inr b \<Rightarrow> Inr (a, b))) ud of
           Inl e \<Rightarrow> Inl e
         | Inr value_data \<Rightarrow>
        (case empirical_covariance env value_data of
           Inl e \<Rightarrow> Inl e
         | Inr cov_hat \<Rightarrow>
        (case choose_copula env \<lparr>arg_copula_name = copula_name, arg_theta = None,
                                  arg_cov = Some cov_hat, arg_nu = nu\<rparr> of
           Inl e \<Rightarrow> Inl e
         | Inr c \<Rightarrow> Inr (Some c)))))
      else Inr my_copula)"

definition fit_copula ::
  "'c collaborators \<Rightarrow> real list \<Rightarrow> real list \<Rightarrow> string \<Rightarrow> real option \<Rightarrow> error + 'c" where
  "fit_copula env x y copula_name nu =
     (case fit_theta_copula env x y copula_name None of
        Inl e \<Rightarrow> Inl e
      | Inr c1 \<Rightarrow>
     (case fit_gaussian_copula env x y copula_name c1 of
        Inl e \<Rightarrow> Inl e
      | Inr c2 \<Rightarrow>
     (case fit_student_copula env x y copula_name nu c2 of
        Inl e \<Rightarrow> Inl e
      | Inr None \<Rightarrow> Inl UnboundLocalError
      | Inr (Some my_copula) \<Rightarrow> Inr my_copula)))"

definition log_ml ::
  "'c collaborators \<Rightarrow> real list \<Rightarrow> real list \<Rightarrow> string \<Rightarrow> real option
     \<Rightarrow> error + (npfloat \<times> 'c)" where
  "log_ml env x y copula_name nu =
     (case fit_copula env x y copula_name nu of
        Inl e \<Rightarrow> Inl e
      | Inr my_copula \<Rightarrow>
          let likelihood_list = map (\<lambda>(xi, yi). density env my_copula xi yi) (zip x y);
              log_likelihood_sum = np_sum (map np_log likelihood_list)
          in Inr (log_likelihood_sum, my_copula))"

text \<open>
  Modelled from the spec: the Dependence Family Interface (the module \<open>copula_generate\<close>,
  which is not among the sources) "returns, for a named family and parameters, an object
  with" a density and a tau-to-parameter mapping. This stand-in accepts every family name
  and returns the arguments themselves as the object; its tau-to-parameter mapping is the
  identity, and Kendall's tau and the density are given from outside.
\<close>

definition stand_in :: "real \<Rightarrow> (real \<Rightarrow> real \<Rightarrow> real) \<Rightarrow> copula_args collaborators" where
  "stand_in tau dens =
     \<lparr>kendalltau = (\<lambda>x y. Inr tau),
      choose_copula = Inr,
      theta_hat = (\<lambda>c t. Inr t),
      density = (\<lambda>c. dens),
      norm_ppf = (\<lambda>u. u),
      t_ppf = (\<lambda>nu u. Inr u),
      empirical_covariance = (\<lambda>d. Inr dud_cov)\<rparr>"

section \<open>vine_copula_partner_selection.py\<close>

subsection \<open>Candidate generation\<close>

text \<open>
  \<open>itertools.combinations(iterable, r)\<close>: the \<open>r\<close>-length subsequences of the input, in
  the lexicographic order of their positions. A combination either starts with the first
  element and continues with a combination of the rest, or is a combination of the rest;
  those of the first kind come first.
\<close>

fun combinations :: "'a list \<Rightarrow> nat \<Rightarrow> 'a list list" where
  "combinations xs 0 = [[]]"
| "combinations [] (Suc r) = []"
| "combinations (x # xs) (Suc r) = map ((#) x) (combinations xs r) @ combinations xs (Suc r)"

text \<open>
  \<open>_generate_all_quadruples_helper\<close>: \<open>row\<close> holds the partner stocks of the target
  \<open>row.name\<close>.
\<close>

definition generate_all_quadruples_helper :: "'a \<Rightarrow> 'a list \<Rightarrow> 'a list list" where
  "generate_all_quadruples_helper target row =
     map (\<lambda>triple. [target] @ triple) (combinations row 3)"

text \<open>
  \<open>_prepare_combinations_of_partners\<close>: the same enumeration over the positions
  \<open>np.arange(1, num_of_stocks)\<close> of the partners, each prefixed with position 0 of the
  target.
\<close>

definition prepare_combinations_of_partners :: "'a list \<Rightarrow> nat list list" where
  "prepare_combinations_of_partners stock_selection =
     (let num_of_stocks = length stock_selection;
          partner_stocks_idx = [1 ..< num_of_stocks]
      in map (\<lambda>comb. 0 # comb) (combinations partner_stocks_idx 3))"

text \<open>The strict lexicographic order on index tuples.\<close>

definition lex_less :: "nat list \<Rightarrow> nat list \<Rightarrow> bool" where
  "lex_less p q = ((p, q) \<in> lexord {(a, b). a < b})"

section \<open>vine_copula_partner_selection_utils.py\<close>

subsection \<open>Data frames and numpy indexing\<close>

text \<open>
  A \<open>pd.DataFrame\<close>: its column labels and its values, row by row. Each row of a data
  frame has one value per column.
\<close>

record 'a dataframe =
  df_columns :: "'a list"
  df_values :: "real list list"

definition wellformed :: "'a dataframe \<Rightarrow> bool" where
  "wellformed ds = (\<forall>row \<in> set (df_values ds). length row = length (df_columns ds))"

text \<open>
  \<open>values[:, all_possible_combinations]\<close>: array \<open>a\<close> of shape \<open>(rows, N, d)\<close> with
  \<open>a[r, q, k] = values[r, combinations[q, k]]\<close>. An index beyond the last column raises; so
  does an index array built from no integer at all, which numpy types as floating point.
\<close>

definition index_columns ::
  "nat \<Rightarrow> real list list \<Rightarrow> nat list list \<Rightarrow> error + real list list list" where
  "index_columns ncols vals combs =
     (if concat combs = [] then Inl IndexError
      else if \<forall>c \<in> set combs. \<forall>j \<in> set c. j < ncols
      then Inr (map (\<lambda>row. map (\<lambda>c. map ((!) row) c) combs) vals)
      else Inl IndexError)"

text \<open>
  \<open>np.take_along_axis(arr, idx[..., np.newaxis], axis=0)\<close> for \<open>arr\<close> of shape
  \<open>(rows, N, d)\<close> and \<open>idx\<close> of shape \<open>(d, N)\<close>: the result has shape \<open>(d, N, d)\<close> and
  entry \<open>[i, q, k]\<close> is \<open>arr[idx[i, q], q, k]\<close>.
\<close>

definition take_along_axis0 ::
  "real list list list \<Rightarrow> nat list list \<Rightarrow> error + real list list list" where
  "take_along_axis0 arr idx =
     (if \<forall>irow \<in> set idx. \<forall>r \<in> set irow. r < length arr
      then Inr (map (\<lambda>irow. map (\<lambda>q. arr ! (irow ! q) ! q) [0 ..< length irow]) idx)
      else Inl IndexError)"

text \<open>\<open>np.sum(t, axis=(0, 2))\<close> for \<open>t\<close> of shape \<open>(d, N, d)\<close>.\<close>

definition sum_axes_0_2 :: "nat \<Rightarrow> real list list list \<Rightarrow> real list" where
  "sum_axes_0_2 N t = map (\<lambda>q. sum_list (map (\<lambda>plane. sum_list (plane ! q)) t)) [0 ..< N]"

text \<open>
  \<open>np.argmax\<close> and \<open>np.argmin\<close> of a one-dimensional array: the first position of the
  largest (smallest) entry.
\<close>

fun argmax :: "real list \<Rightarrow> nat" where
  "argmax [] = 0"
| "argmax [x] = 0"
| "argmax (x # y # ys) = (let k = argmax (y # ys) in if x < (y # ys) ! k then Suc k else 0)"

fun argmin :: "real list \<Rightarrow> nat" where
  "argmin [] = 0"
| "argmin [x] = 0"
| "argmin (x # y # ys) = (let k = argmin (y # ys) in if (y # ys) ! k < x then Suc k else 0)"

subsection \<open>get_sum_correlations_vectorized\<close>

text \<open>
  The array \<open>corr_sums\<close> of the source, after the scaling \<open>(corr_sums - d) / 2\<close> with
  \<open>d = all_possible_combinations.shape[-1]\<close>; the function itself picks the winner from it.
\<close>

definition corr_sums :: "'a dataframe \<Rightarrow> nat list list \<Rightarrow> error + real list" where
  "corr_sums data_subset all_possible_combinations =
     (case index_columns (length (df_columns data_subset)) (df_values data_subset)
             all_possible_combinations of
        Inl e \<Rightarrow> Inl e
      | Inr corr_matrix_a \<Rightarrow>
     (case take_along_axis0 corr_matrix_a (transpose all_possible_combinations) of
        Inl e \<Rightarrow> Inl e
      | Inr taken \<Rightarrow>
          let raw = sum_axes_0_2 (length all_possible_combinations) taken;
              d = length (last all_possible_combinations)
          in Inr (map (\<lambda>s. (s - real d) / 2) raw)))"

definition get_sum_correlations_vectorized ::
  "'a dataframe \<Rightarrow> nat list list \<Rightarrow> error + ('a list \<times> real)" where
  "get_sum_correlations_vectorized data_subset all_possible_combinations =
     (case corr_sums data_subset all_possible_combinations of
        Inl e \<Rightarrow> Inl e
      | Inr scores \<Rightarrow>
          let max_index = argmax scores;
              final_quadruple =
                map ((!) (df_columns data_subset)) (all_possible_combinations ! max_index)
          in Inr (final_quadruple, scores ! max_index))"

text \<open>
  The direct score of a quadruple, in the words of the specification ("sum of pairwise
  correlations among the 4 assets (6 pairs)"): the sum of the correlations of its pairs. It
  is what the vectorised score is compared with.
\<close>

definition sum_pairwise_correlations :: "real list list \<Rightarrow> nat list \<Rightarrow> real" where
  "sum_pairwise_correlations corr quad =
     sum_list (map (\<lambda>pair. corr ! (pair ! 0) ! (pair ! 1)) (combinations quad 2))"

text \<open>A correlation matrix: square, symmetric, with ones on the diagonal.\<close>

definition correlation_matrix :: "real list list \<Rightarrow> bool" where
  "correlation_matrix corr =
     ((\<forall>row \<in> set corr. length row = length corr) \<and>
      (\<forall>i \<in> set [0 ..< length corr]. corr ! i ! i = 1 \<and>
         (\<forall>j \<in> set [0 ..< length corr]. corr ! i ! j = corr ! j ! i)))"

text \<open>An index array of shape \<open>(N, d)\<close> with \<open>N > 0\<close>, all entries below \<open>n\<close>.\<close>

definition index_array :: "nat \<Rightarrow> nat \<Rightarrow> nat list list \<Rightarrow> bool" where
  "index_array d n combs =
     (combs \<noteq> [] \<and> (\<forall>c \<in> set combs. length c = d \<and> (\<forall>j \<in> set c. j < n)))"

subsection \<open>diagonal_measure_vectorized\<close>

text \<open>
  \<open>np.einsum("ijk,k->ji", a, v)\<close> and \<open>np.einsum("ijk,ijk->ji", a, b)\<close> for arrays of
  shape \<open>(n, N, d)\<close> and a vector of length \<open>d\<close>: the results have shape \<open>(N, n)\<close>.
\<close>

definition einsum_ijk_k_ji :: "nat \<Rightarrow> real list list list \<Rightarrow> real list \<Rightarrow> real list list" where
  "einsum_ijk_k_ji N a v =
     map (\<lambda>j. map (\<lambda>plane. sum_list (map2 (*) (plane ! j) v)) a) [0 ..< N]"

definition einsum_ijk_ijk_ji ::
  "nat \<Rightarrow> real list list list \<Rightarrow> real list list list \<Rightarrow> real list list" where
  "einsum_ijk_ijk_ji N a b =
     map (\<lambda>j. map (\<lambda>(pa, pb). sum_list (map2 (*) (pa ! j) (pb ! j))) (zip a b)) [0 ..< N]"

text \<open>\<open>np.linalg.norm\<close> of a vector: the Euclidean norm.\<close>

definition norm_vec :: "real list \<Rightarrow> real" where
  "norm_vec v = sqrt (sum_list (map (\<lambda>x. x\<^sup>2) v))"

text \<open>
  The array \<open>distance_scores\<close>. The real square root stands for \<open>np.sqrt\<close>: its arguments
  here are never negative (\<open>distance_radicand_nonneg\<close> below).
\<close>

definition distance_scores :: "'a dataframe \<Rightarrow> nat list list \<Rightarrow> error + real list" where
  "distance_scores data_subset all_possible_combinations =
     (case index_columns (length (df_columns data_subset)) (df_values data_subset)
             all_possible_combinations of
        Inl e \<Rightarrow> Inl e
      | Inr quadruples_combinations_data \<Rightarrow>
          let N = length all_possible_combinations;
              d = length (last all_possible_combinations);
              line = replicate d 1;
              pp = map (map (\<lambda>x. x / norm_vec line))
                     (einsum_ijk_k_ji N quadruples_combinations_data line);
              pn = map (map sqrt)
                     (einsum_ijk_ijk_ji N quadruples_combinations_data
                        quadruples_combinations_data)
          in Inr (map (\<lambda>(pn_row, pp_row).
                    sum_list (map (\<lambda>(a, b). sqrt (a\<^sup>2 - b\<^sup>2)) (zip pn_row pp_row)))
                  (zip pn pp)))"

definition diagonal_measure_vectorized ::
  "'a dataframe \<Rightarrow> nat list list \<Rightarrow> error + ('a list \<times> real)" where
  "diagonal_measure_vectorized data_subset all_possible_combinations =
     (case distance_scores data_subset all_possible_combinations of
        Inl e \<Rightarrow> Inl e
      | Inr scores \<Rightarrow>
          let min_index = argmin scores;
              final_quadruple =
                map ((!) (df_columns data_subset)) (all_possible_combinations ! min_index)
          in Inr (final_quadruple, scores ! min_index))"

text \<open>
  The rows of a quadruple lie on the hyper-diagonal: in every row of the data, the values of
  its assets are equal.
\<close>

definition on_diagonal :: "real list list \<Rightarrow> nat list \<Rightarrow> bool" where
  "on_diagonal vals quad = (\<forall>row \<in> set vals. \<forall>j \<in> set quad. row ! j = row ! (quad ! 0))"

subsection \<open>get_co_variance_matrix\<close>

text \<open>
  \<open>func\<close>: the result stays \<open>None\<close> for a flag other than 1 and 2, and multiplying
  with \<open>None\<close> raises.
\<close>

definition func :: "real \<Rightarrow> nat \<Rightarrow> real option" where
  "func t val =
     (let res = None;
          res = (if val = 1 then Some ((t - 1) * (3 * t - 1)) else res);
          res = (if val = 2 then Some (t * (2 - 3 * t)) else res)
      in res)"

definition mult :: "error + real \<Rightarrow> real option \<Rightarrow> error + real" where
  "mult a b =
     (case a of
        Inl e \<Rightarrow> Inl e
      | Inr v \<Rightarrow> (case b of None \<Rightarrow> Inl TypeError | Some w \<Rightarrow> Inr (v * w)))"

definition variance_integral_func ::
  "real \<Rightarrow> real \<Rightarrow> real \<Rightarrow> real \<Rightarrow> nat \<times> nat \<times> nat \<times> nat \<Rightarrow> nat \<times> nat \<times> nat \<times> nat
     \<Rightarrow> error + real" where
  "variance_integral_func u1 u2 u3 u4 l1 l2 =
     (case (l1, l2) of ((a1, a2, a3, a4), (b1, b2, b3, b4)) \<Rightarrow>
        mult (mult (mult (mult (mult (mult (mult (mult (Inr 1) (func u1 a1)) (func u2 a2))
          (func u3 a3)) (func u4 a4)) (func u1 b1)) (func u2 b2)) (func u3 b3)) (func u4 b4))"

text \<open>\<open>itertools.product([1, 2], [1, 2], [1, 2], [1, 2])\<close>, and \<open>enumerate\<close>.\<close>

definition exponent_tuples :: "(nat \<times> nat \<times> nat \<times> nat) list" where
  "exponent_tuples =
     concat (map (\<lambda>a. concat (map (\<lambda>b. concat (map (\<lambda>c. map (\<lambda>d. (a, b, c, d)) [1, 2]) [1, 2]))
       [1, 2])) [1, 2])"

definition enumerate :: "'a list \<Rightarrow> (nat \<times> 'a) list" where
  "enumerate xs = zip [0 ..< length xs] xs"

text \<open>
  The integrator \<open>scipy.integrate.nquad\<close> over the unit cube and the inversion
  \<open>np.linalg.inv\<close>, which raises on a singular matrix, are parameters. The double loop
  writes \<open>co_variance_matrix[i, j]\<close> for \<open>j \<ge> i\<close> into the matrix of zeros.
\<close>

type_synonym integrand = "real \<Rightarrow> real \<Rightarrow> real \<Rightarrow> real \<Rightarrow> error + real"

definition set_entry :: "real list list \<Rightarrow> nat \<Rightarrow> nat \<Rightarrow> real \<Rightarrow> real list list" where
  "set_entry M i j v = M[i := (M ! i)[j := v]]"

definition upper_triangle :: "(integrand \<Rightarrow> real) \<Rightarrow> real list list" where
  "upper_triangle nquad =
     fold (\<lambda>(i, l1) M.
        fold (\<lambda>(j, l2) M'.
           if j < i then M'
           else set_entry M' i j (nquad (\<lambda>u1 u2 u3 u4. variance_integral_func u1 u2 u3 u4 l1 l2)))
          (enumerate exponent_tuples) M)
       (enumerate exponent_tuples) (replicate 16 (replicate 16 0))"

text \<open>
  \<open>inds = np.tri(16, k=-1, dtype=bool)\<close> marks the entries with \<open>j < i\<close>, and
  \<open>co_variance_matrix[inds] = co_variance_matrix.T[inds]\<close> copies the transposed entries
  there.
\<close>

definition mirror_lower :: "real list list \<Rightarrow> real list list" where
  "mirror_lower M = map (\<lambda>i. map (\<lambda>j. if j < i then M ! j ! i else M ! i ! j) [0 ..< 16]) [0 ..< 16]"

definition get_co_variance_matrix ::
  "(integrand \<Rightarrow> real) \<Rightarrow> (real list list \<Rightarrow> error + real list list) \<Rightarrow> error + real list list" where
  "get_co_variance_matrix nquad linalg_inv = linalg_inv (mirror_lower (upper_triangle nquad))"

section \<open>vine_copula_partner_selection.py: the top-50 lists\<close>

text \<open>
  A column of the correlation matrix as a \<open>pd.Series\<close>: the row labels, which are the
  column labels of the matrix, paired with the values of the column.
\<close>

definition column_series :: "'a dataframe \<Rightarrow> nat \<Rightarrow> ('a \<times> real) list" where
  "column_series cm c = zip (df_columns cm) (map (\<lambda>row. row ! c) (df_values cm))"

text \<open>
  \<open>col.sort_values(ascending=False)\<close>: pandas reverses the entries, sorts them in
  ascending order and reverses the result. The source asks for no stable sort, and the order
  that numpy's default sort gives to equal values is numpy's own. The model keeps equal
  values in their original order, which is the order of the code on the two-entry column
  evaluated below; on other columns it stands for the code only where the values are
  pairwise different.
\<close>

definition sort_values_desc :: "('a \<times> real) list \<Rightarrow> ('a \<times> real) list" where
  "sort_values_desc col = rev (sort_key snd (rev col))"

text \<open>\<open>tickers_list\<close>: the labels at positions 1 to 50 of the sorted column.\<close>

definition tickers_list :: "('a \<times> real) list \<Rightarrow> 'a list" where
  "tickers_list col = map fst (take 50 (drop 1 (sort_values_desc col)))"

text \<open>\<open>_top_50_tickers\<close>: one row per asset, holding its list of tickers.\<close>

definition top_50_tickers :: "'a dataframe \<Rightarrow> ('a \<times> 'a list) list" where
  "top_50_tickers cm =
     map (\<lambda>c. (df_columns cm ! c, tickers_list (column_series cm c)))
       [0 ..< length (df_columns cm)]"

subsection \<open>Sample inputs\<close>

text \<open>
  A correlation matrix of five assets, and the ranked returns on two days of five assets of
  which all but \<open>D\<close> move together. They are the concrete inputs at which the theorems
  below are instantiated.
\<close>

definition example_corr :: "string dataframe" where
  "example_corr = \<lparr>df_columns = [''A'', ''B'', ''C'', ''D'', ''E''],
     df_values = [[1, 9/10, 8/10, 1/10, 2/10],
                  [9/10, 1, 7/10, 3/10, 1/10],
                  [8/10, 7/10, 1, 2/10, 4/10],
                  [1/10, 3/10, 2/10, 1, 5/10],
                  [2/10, 1/10, 4/10, 5/10, 1]]\<rparr>"

definition example_ranks :: "string dataframe" where
  "example_ranks = \<lparr>df_columns = [''A'', ''B'', ''C'', ''D'', ''E''],
     df_values = [[1/2, 1/2, 1/2, 1, 1/2],
                  [1, 1, 1, 1/2, 1]]\<rparr>"

text \<open>
  A one-point rule, standing for the integrator where the covariance matrix is built at a
  concrete input.
\<close>

definition midpoint_rule :: "integrand \<Rightarrow> real" where
  "midpoint_rule f = (case f (1/2) (1/2) (1/2) (1/2) of Inl e \<Rightarrow> 0 | Inr v \<Rightarrow> v)"

section \<open>Properties of the empirical CDF\<close>

lemma map_err_Inr:
  assumes "\<And>t. t \<in> set ts \<Longrightarrow> f t = Inr (g t)"
  shows "map_err f ts = Inr (map g ts)"
  using assms by (induction ts) simp_all

lemma fitted_cdf_value:
  assumes "x \<noteq> []"
  shows "fitted_cdf x kwargs t =
     Inr (max (min (real (length (filter (\<lambda>v. v \<le> t) x)) / real (length x)) (prob_cap kwargs))
              (prob_floor kwargs))"
  using assms by (simp add: fitted_cdf_def ECDF_def)

lemma clamp_bounds:
  fixes p lo hi :: real
  assumes "lo \<le> hi"
  shows "lo \<le> max (min p hi) lo" and "max (min p hi) lo \<le> hi"
  using assms by simp_all

text \<open>
  Claim C6. For a non-empty sample, the function returned by \<open>find_marginal_cdf\<close> (empirical
  branch) maps every real query point to a value between the probability floor and the
  probability cap, whenever the floor is at most the cap (as the defaults \<open>1e-5\<close> and
  \<open>0.99999\<close> are); applied to a non-empty array it returns an array of the same length
  whose entries are the scalar results, each within the same bounds.
\<close>

theorem find_marginal_cdf_bounded:
  assumes "x \<noteq> []" and "prob_floor kwargs \<le> prob_cap kwargs"
  shows "\<exists>F. find_marginal_cdf x True kwargs = Some F \<and>
     (\<forall>t. \<exists>v. F (Scalar t) = Inr (Scalar v) \<and> prob_floor kwargs \<le> v \<and> v \<le> prob_cap kwargs) \<and>
     (\<forall>ts. ts \<noteq> [] \<longrightarrow> (\<exists>vs. F (Array ts) = Inr (Array vs) \<and> length vs = length ts \<and>
        (\<forall>i < length ts. F (Scalar (ts ! i)) = Inr (Scalar (vs ! i)) \<and>
           prob_floor kwargs \<le> vs ! i \<and> vs ! i \<le> prob_cap kwargs)))"
proof -
  let ?g = "\<lambda>t. max (min (real (length (filter (\<lambda>v. v \<le> t) x)) / real (length x)) (prob_cap kwargs))
              (prob_floor kwargs)"
  let ?F = "vectorize (fitted_cdf x kwargs)"
  have val: "\<And>t. fitted_cdf x kwargs t = Inr (?g t)"
    using assms(1) by (rule fitted_cdf_value)
  have bnd: "\<And>t. prob_floor kwargs \<le> ?g t \<and> ?g t \<le> prob_cap kwargs"
    using clamp_bounds [OF assms(2)] by blast
  have scalar: "\<And>t. ?F (Scalar t) = Inr (Scalar (?g t))"
    by (simp add: val)
  have arr: "\<And>ts. ts \<noteq> [] \<Longrightarrow> ?F (Array ts) = Inr (Array (map ?g ts))"
    by (simp add: map_err_Inr [where g = ?g] val)
  have "find_marginal_cdf x True kwargs = Some ?F"
    by (simp add: find_marginal_cdf_def)
  moreover have "\<forall>t. \<exists>v. ?F (Scalar t) = Inr (Scalar v) \<and> prob_floor kwargs \<le> v \<and> v \<le> prob_cap kwargs"
    using scalar bnd by blast
  moreover have "\<forall>ts. ts \<noteq> [] \<longrightarrow> (\<exists>vs. ?F (Array ts) = Inr (Array vs) \<and> length vs = length ts \<and>
        (\<forall>i < length ts. ?F (Scalar (ts ! i)) = Inr (Scalar (vs ! i)) \<and>
           prob_floor kwargs \<le> vs ! i \<and> vs ! i \<le> prob_cap kwargs))"
  proof (intro allI impI)
    fix ts :: "real list"
    assume ne: "ts \<noteq> []"
    have "\<forall>i < length ts. ?F (Scalar (ts ! i)) = Inr (Scalar (map ?g ts ! i)) \<and>
           prob_floor kwargs \<le> map ?g ts ! i \<and> map ?g ts ! i \<le> prob_cap kwargs"
      using scalar bnd by simp
    then show "\<exists>vs. ?F (Array ts) = Inr (Array vs) \<and> length vs = length ts \<and>
        (\<forall>i < length ts. ?F (Scalar (ts ! i)) = Inr (Scalar (vs ! i)) \<and>
           prob_floor kwargs \<le> vs ! i \<and> vs ! i \<le> prob_cap kwargs)"
      using arr [OF ne] by (intro exI [of _ "map ?g ts"]) simp
  qed
  ultimately show ?thesis by blast
qed

theorem find_marginal_cdf_bounded_witness:
  "[1, 2 :: real] \<noteq> [] \<and> prob_floor Map.empty \<le> prob_cap Map.empty \<and>
   (\<exists>F. find_marginal_cdf [1, 2] True Map.empty = Some F \<and>
      (\<exists>v. F (Scalar (3 / 2)) = Inr (Scalar v) \<and> 1 / 100000 \<le> v \<and> v \<le> 99999 / 100000))"
proof -
  have a: "[1, 2 :: real] \<noteq> []" by simp
  have b: "prob_floor Map.empty \<le> prob_cap Map.empty"
    by (simp add: prob_floor_def prob_cap_def)
  have c: "prob_floor Map.empty = 1 / 100000" "prob_cap Map.empty = 99999 / 100000"
    by (simp_all add: prob_floor_def prob_cap_def)
  show ?thesis
    using find_marginal_cdf_bounded [OF a b] a b unfolding c by blast
qed

text \<open>
  Claim C10. With \<open>empirical = False\<close> the function returns \<open>None\<close>: no CDF is built, for any
  sample and any floor and cap settings.
\<close>

theorem find_marginal_cdf_not_empirical:
  "find_marginal_cdf x False kwargs = None"
  by (simp add: find_marginal_cdf_def)

section \<open>Properties of the information criteria\<close>

text \<open>
  Claim C4, as the code has it. \<open>aic\<close> has no guard of its own: it fails exactly when the
  divisor \<open>n - k - 1\<close> is zero, with the division's own \<open>ZeroDivisionError\<close>; for every
  other \<open>n\<close> and \<open>k\<close>, a negative divisor included, it returns
  \<open>(2n / (n - k - 1)) k - 2 log_likelihood\<close>.
\<close>

theorem aic_behaviour:
  "(n - k - 1 = 0 \<longrightarrow> aic ll n k = Inl ZeroDivisionError) \<and>
   (n - k - 1 \<noteq> 0 \<longrightarrow>
      aic ll n k =
        Inr ((2 * real_of_int n / (real_of_int n - real_of_int k - 1)) * real_of_int k - 2 * ll))"
  by (simp add: aic_def)

theorem aic_behaviour_witness:
  "aic (-5) 2 1 = Inl ZeroDivisionError \<and> aic (-5) 10 1 = Inr (25 / 2) \<and> aic (-5) 1 1 = Inr 8"
  using aic_behaviour [of 2 1 "-5"] aic_behaviour [of 10 1 "-5"] aic_behaviour [of 1 1 "-5"]
  by simp

text \<open>
  With \<open>n = 1\<close> and \<open>k = 1\<close> the divisor is \<open>-1\<close>: the division is performed and a value
  is returned.
\<close>

theorem aic_negative_divisor_counterexample:
  "aic (-5) 1 1 = Inr 8"
  by (simp add: aic_def)

section \<open>Properties of candidate generation\<close>

lemma length_combinations: "length (combinations xs r) = length xs choose r"
  by (induction xs r rule: combinations.induct) simp_all

lemma lex_less_Cons: "lex_less (a # p) (b # q) = (a < b \<or> a = b \<and> lex_less p q)"
  by (simp add: lex_less_def)

lemma combinations_length: "ys \<in> set (combinations xs r) \<Longrightarrow> length ys = r"
  by (induction xs r arbitrary: ys rule: combinations.induct) auto

lemma combinations_subset: "ys \<in> set (combinations xs r) \<Longrightarrow> set ys \<subseteq> set xs"
  by (induction xs r arbitrary: ys rule: combinations.induct) fastforce+

lemma combinations_member:
  "ys \<in> set (combinations xs r) \<Longrightarrow> length ys = r \<and> set ys \<subseteq> set xs"
  using combinations_length combinations_subset by blast

lemma combinations_sorted_wrt:
  "ys \<in> set (combinations xs r) \<Longrightarrow> sorted_wrt R xs \<Longrightarrow> sorted_wrt R ys"
proof (induction xs r arbitrary: ys rule: combinations.induct)
  case (3 x xs r)
  from "3.prems"(1) consider (a) zs where "ys = x # zs" "zs \<in> set (combinations xs r)"
    | (b) "ys \<in> set (combinations xs (Suc r))" by auto
  then show ?case
  proof cases
    case a
    then have "sorted_wrt R zs" using 3 by simp
    moreover have "set zs \<subseteq> set xs" using a combinations_member by blast
    ultimately show ?thesis using a "3.prems"(2) by auto
  next
    case b
    then show ?thesis using 3 by simp
  qed
qed simp_all

lemma combinations_distinct_each:
  "ys \<in> set (combinations xs r) \<Longrightarrow> distinct xs \<Longrightarrow> distinct ys"
proof (induction xs r arbitrary: ys rule: combinations.induct)
  case (3 x xs r)
  from "3.prems"(1) consider (a) zs where "ys = x # zs" "zs \<in> set (combinations xs r)"
    | (b) "ys \<in> set (combinations xs (Suc r))" by auto
  then show ?case
  proof cases
    case a
    then have "distinct zs" using 3 by simp
    moreover have "set zs \<subseteq> set xs" using a combinations_member by blast
    ultimately show ?thesis using a "3.prems"(2) by auto
  next
    case b
    then show ?thesis using 3 by simp
  qed
qed simp_all

lemma distinct_combinations: "distinct xs \<Longrightarrow> distinct (combinations xs r)"
proof (induction xs r rule: combinations.induct)
  case (3 x xs r)
  have d1: "distinct (map ((#) x) (combinations xs r))"
    using 3 by (simp add: distinct_map)
  have d2: "distinct (combinations xs (Suc r))" using 3 by simp
  have "\<And>zs. x # zs \<notin> set (combinations xs (Suc r))"
  proof
    fix zs assume "x # zs \<in> set (combinations xs (Suc r))"
    then have "x \<in> set xs" using combinations_member by fastforce
    then show False using "3.prems" by simp
  qed
  then have "set (map ((#) x) (combinations xs r)) \<inter> set (combinations xs (Suc r)) = {}"
    by auto
  then show ?case using d1 d2 by simp
qed simp_all

lemma combinations_lex_sorted:
  "sorted_wrt (<) xs \<Longrightarrow> sorted_wrt lex_less (combinations xs r)"
proof (induction xs r rule: combinations.induct)
  case (3 x xs r)
  have s1: "sorted_wrt lex_less (map ((#) x) (combinations xs r))"
    using 3 by (simp add: sorted_wrt_map lex_less_Cons)
  have s2: "sorted_wrt lex_less (combinations xs (Suc r))" using 3 by simp
  have cross: "lex_less (x # a) b" if "b \<in> set (combinations xs (Suc r))" for a b
  proof -
    from that have "length b = Suc r" "set b \<subseteq> set xs" using combinations_member by blast+
    then obtain h t where b: "b = h # t" "h \<in> set xs" by (cases b) auto
    then have "x < h" using "3.prems" by auto
    then show ?thesis using b by (simp add: lex_less_Cons)
  qed
  show ?case using s1 s2 cross by (auto simp: sorted_wrt_append)
qed (simp_all add: lex_less_def)

lemma combinations_map: "combinations (map f xs) r = map (map f) (combinations xs r)"
  by (induction xs r rule: combinations.induct) simp_all

lemma choose_50_3: "(50::nat) choose 3 = 19600"
proof -
  have "Suc 2 * (Suc 49 choose Suc 2) = Suc 49 * (49 choose 2)"
    by (rule Suc_times_binomial)
  then have "3 * ((50::nat) choose 3) = 50 * (49 choose 2)"
    by simp
  also have "(49::nat) choose 2 = 1176"
    by (simp add: choose_two)
  finally show ?thesis by simp
qed

lemma combinations_three:
  assumes "ys \<in> set (combinations xs 3)"
  shows "\<exists>a b c. ys = [a, b, c]"
proof -
  have "length ys = 3" using assms combinations_member by blast
  then show ?thesis by (auto simp: length_Suc_conv numeral_3_eq_3)
qed

text \<open>
  Claim C2. For a target with exactly 50 distinct neighbours, candidate generation yields
  exactly \<open>C(50,3) = 19600\<close> quadruples, without duplicates, each made of the target
  followed by three distinct neighbours. The index form lists the tuples \<open>(0, i, j, k)\<close>
  with \<open>1 \<le> i < j < k \<le> 50\<close> in strictly increasing lexicographic order, and the
  quadruples of names are these index tuples read off the selection (target first), in the
  same order.
\<close>

theorem candidate_generation:
  fixes target :: 'a and neighbors :: "'a list"
  assumes "length neighbors = 50" and "distinct neighbors"
  shows "length (generate_all_quadruples_helper target neighbors) = 19600
    \<and> distinct (generate_all_quadruples_helper target neighbors)
    \<and> (\<forall>q \<in> set (generate_all_quadruples_helper target neighbors).
           \<exists>a b c. q = [target, a, b, c] \<and> distinct [a, b, c] \<and> {a, b, c} \<subseteq> set neighbors)
    \<and> length (prepare_combinations_of_partners (target # neighbors)) = 19600
    \<and> sorted_wrt lex_less (prepare_combinations_of_partners (target # neighbors))
    \<and> (\<forall>p \<in> set (prepare_combinations_of_partners (target # neighbors)).
           \<exists>i j k. p = [0, i, j, k] \<and> 1 \<le> i \<and> i < j \<and> j < k \<and> k \<le> 50)
    \<and> generate_all_quadruples_helper target neighbors =
           map (map ((!) (target # neighbors))) (prepare_combinations_of_partners (target # neighbors))"
proof -
  let ?Q = "generate_all_quadruples_helper target neighbors"
  let ?P = "prepare_combinations_of_partners (target # neighbors)"
  have Q: "?Q = map ((#) target) (combinations neighbors 3)"
    by (simp add: generate_all_quadruples_helper_def)
  have P: "?P = map ((#) 0) (combinations [1 ..< 51] 3)"
    using assms(1) by (simp add: prepare_combinations_of_partners_def)
  have c1: "length ?Q = 19600"
    using assms(1) by (simp add: Q length_combinations choose_50_3)
  have c2: "distinct ?Q"
    using assms(2) by (simp add: Q distinct_map distinct_combinations)
  have c3: "\<forall>q \<in> set ?Q. \<exists>a b c. q = [target, a, b, c] \<and> distinct [a, b, c] \<and> {a, b, c} \<subseteq> set neighbors"
  proof
    fix q assume "q \<in> set ?Q"
    then obtain t where t: "q = target # t" "t \<in> set (combinations neighbors 3)"
      by (auto simp: Q)
    then obtain a b c where abc: "t = [a, b, c]" using combinations_three by blast
    have "distinct t" using t(2) assms(2) by (rule combinations_distinct_each)
    moreover have "set t \<subseteq> set neighbors" using t(2) combinations_member by blast
    ultimately show "\<exists>a b c. q = [target, a, b, c] \<and> distinct [a, b, c] \<and> {a, b, c} \<subseteq> set neighbors"
      using t(1) abc by auto
  qed
  have c4: "length ?P = 19600"
    by (simp add: P length_combinations choose_50_3)
  have "sorted_wrt lex_less (combinations [1 ..< 51] 3)"
    by (rule combinations_lex_sorted) simp
  then have c5: "sorted_wrt lex_less ?P"
    by (simp add: P sorted_wrt_map lex_less_Cons)
  have c6: "\<forall>p \<in> set ?P. \<exists>i j k. p = [0, i, j, k] \<and> 1 \<le> i \<and> i < j \<and> j < k \<and> k \<le> 50"
  proof
    fix p assume "p \<in> set ?P"
    then obtain t where t: "p = 0 # t" "t \<in> set (combinations [1 ..< 51] 3)"
      by (auto simp: P)
    then obtain i j k where ijk: "t = [i, j, k]" using combinations_three by blast
    have "sorted_wrt (<) t" using t(2) by (rule combinations_sorted_wrt) simp
    moreover have "set t \<subseteq> set [1 ..< 51]" using t(2) combinations_member by blast
    ultimately show "\<exists>i j k. p = [0, i, j, k] \<and> 1 \<le> i \<and> i < j \<and> j < k \<and> k \<le> 50"
      using t(1) ijk by auto
  qed
  have "neighbors = map ((!) (target # neighbors)) [1 ..< 51]"
    using assms(1) by (intro nth_equalityI) (simp_all del: upt_Suc)
  then have "combinations neighbors 3 =
      map (map ((!) (target # neighbors))) (combinations [1 ..< 51] 3)"
    using combinations_map [of "(!) (target # neighbors)" "[1 ..< 51]" 3] by simp
  then have c7: "?Q = map (map ((!) (target # neighbors))) ?P"
    by (simp add: Q P)
  show ?thesis using c1 c2 c3 c4 c5 c6 c7 by blast
qed

theorem candidate_generation_witness:
  "length [1 ..< 51 :: nat] = 50 \<and> distinct [1 ..< 51 :: nat] \<and>
   length (generate_all_quadruples_helper (0 :: nat) [1 ..< 51]) = 19600 \<and>
   length (prepare_combinations_of_partners ((0 :: nat) # [1 ..< 51])) = 19600"
proof -
  have a: "length [1 ..< 51 :: nat] = 50" by simp
  have b: "distinct [1 ..< 51 :: nat]" by simp
  show ?thesis
    using candidate_generation [OF a b, of 0] a b by blast
qed

section \<open>Properties of the quadruple scorers\<close>

lemma argmax_props:
  "xs \<noteq> [] \<Longrightarrow> argmax xs < length xs \<and> (\<forall>j < length xs. xs ! j \<le> xs ! argmax xs)"
proof (induction xs rule: argmax.induct)
  case (3 x y ys)
  let ?k = "argmax (y # ys)"
  have ih: "?k < length (y # ys)" "\<forall>j < length (y # ys). (y # ys) ! j \<le> (y # ys) ! ?k"
    using 3 by simp_all
  show ?case
  proof (cases "x < (y # ys) ! ?k")
    case True
    have "\<forall>j < length (x # y # ys). (x # y # ys) ! j \<le> (y # ys) ! ?k"
    proof (intro allI impI)
      fix j assume "j < length (x # y # ys)"
      then show "(x # y # ys) ! j \<le> (y # ys) ! ?k"
        using True ih(2) by (cases j) auto
    qed
    then show ?thesis using True ih(1) by (simp add: Let_def)
  next
    case False
    have "\<forall>j < length (x # y # ys). (x # y # ys) ! j \<le> x"
    proof (intro allI impI)
      fix j assume "j < length (x # y # ys)"
      then show "(x # y # ys) ! j \<le> x"
        using False ih(2) by (cases j) (auto simp: not_less intro: order_trans)
    qed
    then show ?thesis using False by (simp add: Let_def)
  qed
qed simp_all

lemma argmin_props:
  "xs \<noteq> [] \<Longrightarrow> argmin xs < length xs \<and> (\<forall>j < length xs. xs ! argmin xs \<le> xs ! j)
     \<and> (\<forall>j < argmin xs. xs ! argmin xs < xs ! j)"
proof (induction xs rule: argmin.induct)
  case (3 x y ys)
  let ?k = "argmin (y # ys)"
  have ih: "?k < length (y # ys)" "\<forall>j < length (y # ys). (y # ys) ! ?k \<le> (y # ys) ! j"
    "\<forall>j < ?k. (y # ys) ! ?k < (y # ys) ! j"
    using 3 by simp_all
  show ?case
  proof (cases "(y # ys) ! ?k < x")
    case True
    have a: "\<forall>j < length (x # y # ys). (y # ys) ! ?k \<le> (x # y # ys) ! j"
    proof (intro allI impI)
      fix j assume "j < length (x # y # ys)"
      then show "(y # ys) ! ?k \<le> (x # y # ys) ! j"
        using True ih(2) by (cases j) auto
    qed
    have b: "\<forall>j < Suc ?k. (y # ys) ! ?k < (x # y # ys) ! j"
    proof (intro allI impI)
      fix j assume "j < Suc ?k"
      then show "(y # ys) ! ?k < (x # y # ys) ! j"
        using True ih(3) by (cases j) auto
    qed
    show ?thesis using True ih(1) a b by (simp add: Let_def)
  next
    case False
    have "\<forall>j < length (x # y # ys). x \<le> (x # y # ys) ! j"
    proof (intro allI impI)
      fix j assume "j < length (x # y # ys)"
      then show "x \<le> (x # y # ys) ! j"
        using False ih(2) by (cases j) (auto simp: not_less intro: order_trans)
    qed
    then show ?thesis using False by (simp add: Let_def)
  qed
qed simp_all

text \<open>
  The vectorised scores before the choice of the winner: for each candidate, half of the sum
  over all ordered pairs of its assets, each asset paired with itself too, less \<open>d\<close>.
\<close>

lemma map_nth_upt: "map (\<lambda>i. f (c ! i)) [0 ..< length c] = map f c"
  by (rule nth_equalityI) simp_all

lemma transpose_index_array:
  assumes "index_array d n combs"
  shows "transpose combs = map (\<lambda>i. map (\<lambda>q. combs ! q ! i) [0 ..< length combs]) [0 ..< d]"
proof (rule transpose_rectangle)
  show "combs = [] \<Longrightarrow> d = 0" using assms by (simp add: index_array_def)
  show "\<And>i. i < length combs \<Longrightarrow> length (combs ! i) = d"
    using assms by (simp add: index_array_def)
qed

lemma corr_sums_value:
  assumes ia: "index_array d n combs" and d: "0 < d"
    and cols: "length (df_columns ds) = n" and rows: "length (df_values ds) = n"
  shows "corr_sums ds combs =
     Inr (map (\<lambda>c. (sum_list (map (\<lambda>a. sum_list (map ((!) (df_values ds ! a)) c)) c) - real d) / 2)
            combs)"
proof -
  let ?vals = "df_values ds"
  let ?N = "length combs"
  have ne: "combs \<noteq> []" and len: "\<And>c. c \<in> set combs \<Longrightarrow> length c = d"
    and rng: "\<And>c j. c \<in> set combs \<Longrightarrow> j \<in> set c \<Longrightarrow> j < n"
    using ia by (auto simp: index_array_def)
  have "last combs \<in> set combs" using ne by simp
  then have lastd: "length (last combs) = d" using len by blast
  have "hd combs \<in> set combs" "hd combs \<noteq> []" using ne len [of "hd combs"] d by auto
  then have cne: "concat combs \<noteq> []" by (cases combs) auto
  let ?arr = "map (\<lambda>row. map (\<lambda>c. map ((!) row) c) combs) ?vals"
  have ic: "index_columns n ?vals combs = Inr ?arr"
    using cne rng by (simp add: index_columns_def)
  have tr: "transpose combs = map (\<lambda>i. map (\<lambda>q. combs ! q ! i) [0 ..< ?N]) [0 ..< d]"
    using ia by (rule transpose_index_array)
  have el: "combs ! q ! i < n" if "q < ?N" "i < d" for q i
  proof -
    have "combs ! q \<in> set combs" using that(1) by simp
    moreover from this have "combs ! q ! i \<in> set (combs ! q)" using that(2) len by simp
    ultimately show ?thesis by (rule rng)
  qed
  have inr: "\<forall>irow \<in> set (transpose combs). \<forall>r \<in> set irow. r < length ?arr"
    using el rows by (auto simp: tr)
  let ?taken = "map (\<lambda>i. map (\<lambda>q. map ((!) (?vals ! (combs ! q ! i))) (combs ! q)) [0 ..< ?N]) [0 ..< d]"
  have "map (\<lambda>irow. map (\<lambda>q. ?arr ! (irow ! q) ! q) [0 ..< length irow]) (transpose combs) = ?taken"
    using el rows by (simp add: tr)
  then have ta: "take_along_axis0 ?arr (transpose combs) = Inr ?taken"
    using inr by (simp add: take_along_axis0_def)
  have "sum_axes_0_2 ?N ?taken =
      map (\<lambda>c. sum_list (map (\<lambda>a. sum_list (map ((!) (?vals ! a)) c)) c)) combs"
  proof (rule nth_equalityI)
    show "length (sum_axes_0_2 ?N ?taken) =
        length (map (\<lambda>c. sum_list (map (\<lambda>a. sum_list (map ((!) (?vals ! a)) c)) c)) combs)"
      by (simp add: sum_axes_0_2_def)
  next
    fix q assume "q < length (sum_axes_0_2 ?N ?taken)"
    then have q: "q < ?N" by (simp add: sum_axes_0_2_def)
    then have lq: "length (combs ! q) = d" using len by simp
    have "sum_axes_0_2 ?N ?taken ! q =
        sum_list (map (\<lambda>i. sum_list (map ((!) (?vals ! (combs ! q ! i))) (combs ! q))) [0 ..< d])"
      using q by (simp add: sum_axes_0_2_def comp_def)
    also have "\<dots> = sum_list (map (\<lambda>a. sum_list (map ((!) (?vals ! a)) (combs ! q))) (combs ! q))"
      using map_nth_upt [of "\<lambda>a. sum_list (map ((!) (?vals ! a)) (combs ! q))" "combs ! q"] lq
      by simp
    finally show "sum_axes_0_2 ?N ?taken ! q =
        map (\<lambda>c. sum_list (map (\<lambda>a. sum_list (map ((!) (?vals ! a)) c)) c)) combs ! q"
      using q by simp
  qed
  then show ?thesis
    using ic ta lastd cols by (simp add: corr_sums_def)
qed

lemma quad_score:
  assumes cm: "correlation_matrix corr" and c: "c = [p, q, r, s]"
    and rng: "p < length corr" "q < length corr" "r < length corr" "s < length corr"
  shows "(sum_list (map (\<lambda>a. sum_list (map ((!) (corr ! a)) c)) c) - real 4) / 2 =
     sum_pairwise_correlations corr c"
proof -
  have diag: "\<And>i. i < length corr \<Longrightarrow> corr ! i ! i = 1"
    and sym: "\<And>i j. i < length corr \<Longrightarrow> j < length corr \<Longrightarrow> corr ! i ! j = corr ! j ! i"
    using cm by (auto simp: correlation_matrix_def)
  have pairs: "combinations [p, q, r, s] 2 = [[p, q], [p, r], [p, s], [q, r], [q, s], [r, s]]"
    by (simp add: numeral_2_eq_2)
  show ?thesis
    unfolding c sum_pairwise_correlations_def pairs
    using diag [OF rng(1)] diag [OF rng(2)] diag [OF rng(3)] diag [OF rng(4)]
      sym [OF rng(2) rng(1)] sym [OF rng(3) rng(1)] sym [OF rng(4) rng(1)]
      sym [OF rng(3) rng(2)] sym [OF rng(4) rng(2)] sym [OF rng(4) rng(3)]
    by simp
qed

lemma index_array_nth:
  assumes "index_array d n combs" and "q < length combs"
  shows "length (combs ! q) = d" and "\<And>i. i < d \<Longrightarrow> combs ! q ! i < n"
proof -
  have m: "combs ! q \<in> set combs" using assms(2) by simp
  then show l: "length (combs ! q) = d" using assms(1) by (simp add: index_array_def)
  fix i assume "i < d"
  then have "combs ! q ! i \<in> set (combs ! q)" using l by simp
  then show "combs ! q ! i < n" using m assms(1) by (auto simp: index_array_def)
qed

text \<open>
  Claim C1. For a correlation matrix (square, symmetric, unit diagonal) and an index array
  of quadruples within its range, every vectorised score \<open>(raw all-pairs sum - 4) / 2\<close>
  equals the direct sum of the six pairwise correlations of the quadruple, and
  \<open>get_sum_correlations_vectorized\<close> returns the labels of a quadruple whose score is
  the largest of all candidates, together with that score.
\<close>

theorem sum_correlations_vectorized_correct:
  assumes cm: "correlation_matrix (df_values ds)"
    and cols: "length (df_columns ds) = length (df_values ds)"
    and ia: "index_array 4 (length (df_values ds)) combs"
  shows "\<exists>scores w. corr_sums ds combs = Inr scores \<and> length scores = length combs \<and>
     (\<forall>q < length combs. scores ! q = sum_pairwise_correlations (df_values ds) (combs ! q)) \<and>
     w < length combs \<and> (\<forall>q < length combs. scores ! q \<le> scores ! w) \<and>
     get_sum_correlations_vectorized ds combs =
       Inr (map ((!) (df_columns ds)) (combs ! w), scores ! w)"
proof -
  let ?vals = "df_values ds"
  let ?raw = "\<lambda>c. (sum_list (map (\<lambda>a. sum_list (map ((!) (?vals ! a)) c)) c) - real 4) / 2"
  let ?scores = "map ?raw combs"
  let ?w = "argmax ?scores"
  have cs: "corr_sums ds combs = Inr ?scores"
    using corr_sums_value [OF ia _ cols refl] by simp
  have ne: "?scores \<noteq> []" using ia by (simp add: index_array_def)
  have direct: "?scores ! q = sum_pairwise_correlations ?vals (combs ! q)" if q: "q < length combs" for q
  proof -
    have l: "length (combs ! q) = 4" and r: "\<And>i. i < 4 \<Longrightarrow> combs ! q ! i < length ?vals"
      using index_array_nth [OF ia q] by blast+
    obtain p1 p2 p3 p4 where c: "combs ! q = [p1, p2, p3, p4]"
      using l by (auto simp: length_Suc_conv eval_nat_numeral)
    have "p1 < length ?vals" "p2 < length ?vals" "p3 < length ?vals" "p4 < length ?vals"
      using r [of 0] r [of 1] r [of 2] r [of 3] by (simp_all add: c)
    then have "?raw (combs ! q) = sum_pairwise_correlations ?vals (combs ! q)"
      by (rule quad_score [OF cm c])
    then show ?thesis using q by simp
  qed
  have w: "?w < length ?scores" "\<forall>j < length ?scores. ?scores ! j \<le> ?scores ! ?w"
    using argmax_props [OF ne] by blast+
  have res: "get_sum_correlations_vectorized ds combs =
      Inr (map ((!) (df_columns ds)) (combs ! ?w), ?scores ! ?w)"
    by (simp add: get_sum_correlations_vectorized_def cs Let_def)
  have "corr_sums ds combs = Inr ?scores \<and> length ?scores = length combs \<and>
     (\<forall>q < length combs. ?scores ! q = sum_pairwise_correlations ?vals (combs ! q)) \<and>
     ?w < length combs \<and> (\<forall>q < length combs. ?scores ! q \<le> ?scores ! ?w) \<and>
     get_sum_correlations_vectorized ds combs =
       Inr (map ((!) (df_columns ds)) (combs ! ?w), ?scores ! ?w)"
    using cs direct w res by simp
  then show ?thesis by blast
qed

theorem sum_correlations_vectorized_correct_witness:
  "correlation_matrix (df_values example_corr) \<and>
   length (df_columns example_corr) = length (df_values example_corr) \<and>
   index_array 4 (length (df_values example_corr))
     (prepare_combinations_of_partners (df_columns example_corr)) \<and>
   (\<exists>scores w. corr_sums example_corr
        (prepare_combinations_of_partners (df_columns example_corr)) = Inr scores \<and>
      scores ! 1 = sum_pairwise_correlations (df_values example_corr)
        (prepare_combinations_of_partners (df_columns example_corr) ! 1) \<and>
      get_sum_correlations_vectorized example_corr
        (prepare_combinations_of_partners (df_columns example_corr)) =
        Inr (map ((!) (df_columns example_corr))
               (prepare_combinations_of_partners (df_columns example_corr) ! w), scores ! w)) \<and>
   get_sum_correlations_vectorized example_corr
     (prepare_combinations_of_partners (df_columns example_corr)) =
     Inr ([''A'', ''B'', ''C'', ''E''], 31 / 10)"
proof -
  let ?combs = "prepare_combinations_of_partners (df_columns example_corr)"
  have a: "correlation_matrix (df_values example_corr)" by code_simp
  have b: "length (df_columns example_corr) = length (df_values example_corr)" by code_simp
  have c: "index_array 4 (length (df_values example_corr)) ?combs" by code_simp
  have l: "(1::nat) < length ?combs" by code_simp
  have r: "get_sum_correlations_vectorized example_corr ?combs =
      Inr ([''A'', ''B'', ''C'', ''E''], 31 / 10)" by code_simp
  from sum_correlations_vectorized_correct [OF a b c] l
  have "\<exists>scores w. corr_sums example_corr ?combs = Inr scores \<and>
      scores ! 1 = sum_pairwise_correlations (df_values example_corr) (?combs ! 1) \<and>
      get_sum_correlations_vectorized example_corr ?combs =
        Inr (map ((!) (df_columns example_corr)) (?combs ! w), scores ! w)"
    by blast
  then show ?thesis using a b c r by blast
qed

subsection \<open>The diagonal measure\<close>

lemma sum_list_mult_ones:
  "length xs = d \<Longrightarrow> sum_list (map2 (*) xs (replicate d (1::real))) = sum_list xs"
proof (induction xs arbitrary: d)
  case (Cons x xs)
  then obtain d' where "d = Suc d'" "length xs = d'" by (cases d) auto
  then show ?case using Cons.IH by simp
qed simp

lemma sum_list_mult_self: "sum_list (map2 (*) xs xs) = sum_list (map (\<lambda>x. x\<^sup>2) (xs :: real list))"
  by (simp add: zip_same_conv_map power2_eq_square comp_def)

lemma norm_vec_ones: "norm_vec (replicate d 1) = sqrt (real d)"
  by (simp add: norm_vec_def sum_list_replicate)

lemma sum_sq_nonneg: "0 \<le> sum_list (map (\<lambda>x. x\<^sup>2) (xs :: real list))"
  by (rule sum_list_nonneg) auto

lemma sum_sq_dev:
  "sum_list (map (\<lambda>x. (x - m)\<^sup>2) xs) =
     sum_list (map (\<lambda>x. x\<^sup>2) xs) - 2 * m * sum_list xs + real (length xs) * m\<^sup>2"
  by (induction xs) (simp_all add: power2_eq_square algebra_simps)

lemma distance_radicand:
  fixes xs :: "real list"
  assumes "0 < length xs"
  shows "(sqrt (sum_list (map (\<lambda>x. x\<^sup>2) xs)))\<^sup>2 - (sum_list xs / sqrt (real (length xs)))\<^sup>2 =
     sum_list (map (\<lambda>x. (x - sum_list xs / real (length xs))\<^sup>2) xs)"
proof -
  let ?n = "real (length xs)"
  have n: "0 < ?n" using assms by simp
  have "(sum_list xs / sqrt ?n)\<^sup>2 = (sum_list xs)\<^sup>2 / ?n"
    using n by (simp add: power_divide)
  moreover have "2 * (sum_list xs / ?n) * sum_list xs - ?n * (sum_list xs / ?n)\<^sup>2 =
      (sum_list xs)\<^sup>2 / ?n"
    using n by (simp add: power2_eq_square field_simps)
  ultimately show ?thesis
    using sum_sq_nonneg [of xs] sum_sq_dev [of "sum_list xs / ?n" xs] by simp
qed

lemma distance_radicand_nonneg:
  fixes xs :: "real list"
  assumes "0 < length xs"
  shows "0 \<le> (sqrt (sum_list (map (\<lambda>x. x\<^sup>2) xs)))\<^sup>2 - (sum_list xs / sqrt (real (length xs)))\<^sup>2"
  unfolding distance_radicand [OF assms] by (rule sum_list_nonneg) auto

lemma distance_radicand_diagonal:
  fixes xs :: "real list"
  assumes "0 < length xs" and "\<forall>x \<in> set xs. x = v"
  shows "(sqrt (sum_list (map (\<lambda>x. x\<^sup>2) xs)))\<^sup>2 - (sum_list xs / sqrt (real (length xs)))\<^sup>2 = 0"
proof -
  have xs: "xs = replicate (length xs) v"
    using assms(2) by (simp add: replicate_length_same)
  have s: "sum_list xs = real (length xs) * v"
    using sum_list_replicate [of "length xs" v] xs by simp
  have m: "sum_list xs / real (length xs) = v"
    using s assms(1) by simp
  have "sum_list (map (\<lambda>x. (x - v)\<^sup>2) xs) = 0"
    using assms(2) by (induction xs) simp_all
  then show ?thesis unfolding distance_radicand [OF assms(1)] m by simp
qed

lemma sum_list_zero_all: "\<forall>x \<in> set xs. x = (0::real) \<Longrightarrow> sum_list xs = 0"
  by (induction xs) simp_all

text \<open>
  The distance scores as the source computes them: for each candidate, the sum over the
  rows of the distance of the row from the hyper-diagonal.
\<close>

lemma distance_scores_value:
  assumes ia: "index_array d (length (df_columns ds)) combs" and d: "0 < d"
  shows "distance_scores ds combs =
     Inr (map (\<lambda>c. sum_list (map (\<lambda>row.
            sqrt ((sqrt (sum_list (map (\<lambda>x. x\<^sup>2) (map ((!) row) c))))\<^sup>2
                  - (sum_list (map ((!) row) c) / sqrt (real d))\<^sup>2)) (df_values ds))) combs)"
proof -
  let ?vals = "df_values ds"
  let ?N = "length combs"
  have ne: "combs \<noteq> []" and len: "\<And>c. c \<in> set combs \<Longrightarrow> length c = d"
    and rng: "\<And>c j. c \<in> set combs \<Longrightarrow> j \<in> set c \<Longrightarrow> j < length (df_columns ds)"
    using ia by (auto simp: index_array_def)
  have "last combs \<in> set combs" using ne by simp
  then have lastd: "length (last combs) = d" using len by blast
  have "hd combs \<in> set combs" "hd combs \<noteq> []" using ne len [of "hd combs"] d by auto
  then have cne: "concat combs \<noteq> []" by (cases combs) auto
  let ?data = "map (\<lambda>row. map (\<lambda>c. map ((!) row) c) combs) ?vals"
  have ic: "index_columns (length (df_columns ds)) ?vals combs = Inr ?data"
    using cne rng by (simp add: index_columns_def)
  have e1: "einsum_ijk_k_ji ?N ?data (replicate d 1) =
      map (\<lambda>c. map (\<lambda>row. sum_list (map ((!) row) c)) ?vals) combs"
  proof (rule nth_equalityI)
    fix q assume "q < length (einsum_ijk_k_ji ?N ?data (replicate d 1))"
    then have q: "q < ?N" by (simp add: einsum_ijk_k_ji_def)
    then have "length (combs ! q) = d" using len by simp
    then show "einsum_ijk_k_ji ?N ?data (replicate d 1) ! q =
        map (\<lambda>c. map (\<lambda>row. sum_list (map ((!) row) c)) ?vals) combs ! q"
      using q by (simp add: einsum_ijk_k_ji_def comp_def sum_list_mult_ones)
  qed (simp add: einsum_ijk_k_ji_def)
  have e2: "einsum_ijk_ijk_ji ?N ?data ?data =
      map (\<lambda>c. map (\<lambda>row. sum_list (map (\<lambda>x. x\<^sup>2) (map ((!) row) c))) ?vals) combs"
  proof (rule nth_equalityI)
    fix q assume "q < length (einsum_ijk_ijk_ji ?N ?data ?data)"
    then have q: "q < ?N" by (simp add: einsum_ijk_ijk_ji_def)
    show "einsum_ijk_ijk_ji ?N ?data ?data ! q =
        map (\<lambda>c. map (\<lambda>row. sum_list (map (\<lambda>x. x\<^sup>2) (map ((!) row) c))) ?vals) combs ! q"
      using q sum_list_mult_self
      by (simp add: einsum_ijk_ijk_ji_def zip_same_conv_map comp_def)
  qed (simp add: einsum_ijk_ijk_ji_def)
  show ?thesis
    unfolding distance_scores_def ic
    by (simp add: Let_def lastd e1 e2 norm_vec_ones zip_map_map zip_same_conv_map comp_def)
qed

lemma distance_radicand_zero:
  fixes xs :: "real list"
  assumes "0 < length xs"
    and "(sqrt (sum_list (map (\<lambda>x. x\<^sup>2) xs)))\<^sup>2 - (sum_list xs / sqrt (real (length xs)))\<^sup>2 = 0"
  shows "\<forall>x \<in> set xs. x = sum_list xs / real (length xs)"
proof -
  let ?m = "sum_list xs / real (length xs)"
  have z: "sum_list (map (\<lambda>x. (x - ?m)\<^sup>2) xs) = 0"
    using assms(2) unfolding distance_radicand [OF assms(1)] .
  have "\<forall>y \<in> set (map (\<lambda>x. (x - ?m)\<^sup>2) xs). y = 0"
  proof -
    have nn: "\<And>y. y \<in> set (map (\<lambda>x. (x - ?m)\<^sup>2) xs) \<Longrightarrow> 0 \<le> y" by auto
    show ?thesis using sum_list_nonneg_eq_0_iff [OF nn] z by blast
  qed
  then have "\<forall>x \<in> set xs. (x - ?m)\<^sup>2 = 0" by simp
  then show ?thesis by simp
qed

text \<open>
  The scores of the candidates: none is negative, and a score is 0 exactly when the rows of
  the candidate lie on the hyper-diagonal.
\<close>

lemma distance_scores_zero_iff:
  assumes ia: "index_array d (length (df_columns ds)) combs" and d: "0 < d"
  shows "\<exists>scores. distance_scores ds combs = Inr scores \<and> length scores = length combs \<and>
     (\<forall>q < length combs. 0 \<le> scores ! q \<and>
        (scores ! q = 0 \<longleftrightarrow> on_diagonal (df_values ds) (combs ! q)))"
proof -
  let ?vals = "df_values ds"
  let ?rad = "\<lambda>c row. (sqrt (sum_list (map (\<lambda>x. x\<^sup>2) (map ((!) row) c))))\<^sup>2
                  - (sum_list (map ((!) row) c) / sqrt (real d))\<^sup>2"
  let ?dist = "\<lambda>c row. sqrt (?rad c row)"
  let ?scores = "map (\<lambda>c. sum_list (map (?dist c) ?vals)) combs"
  have ds: "distance_scores ds combs = Inr ?scores"
    using ia d by (rule distance_scores_value)
  have len: "\<And>q. q < length combs \<Longrightarrow> length (combs ! q) = d"
    using ia by (simp add: index_array_def)
  have main: "0 \<le> ?scores ! q \<and> (?scores ! q = 0 \<longleftrightarrow> on_diagonal ?vals (combs ! q))"
    if q: "q < length combs" for q
  proof -
    let ?c = "combs ! q"
    have lc: "length ?c = d" using len [OF q] .
    have l: "length (map ((!) row) ?c) = d" for row :: "real list" using lc by simp
    have pos: "0 < length (map ((!) row) ?c)" for row :: "real list" using l d by simp
    have c0: "?c ! 0 \<in> set ?c" using lc d by simp
    have rad_nonneg: "0 \<le> ?rad ?c row" for row
      using distance_radicand_nonneg [OF pos [of row]] by (simp only: l)
    have dist_nonneg: "0 \<le> ?dist ?c row" for row
      using rad_nonneg by (rule real_sqrt_ge_zero)
    have terms: "\<And>x. x \<in> set (map (?dist ?c) ?vals) \<Longrightarrow> 0 \<le> x"
    proof -
      fix x assume "x \<in> set (map (?dist ?c) ?vals)"
      then obtain row where "x = ?dist ?c row" unfolding set_map by blast
      then show "0 \<le> x" using dist_nonneg by blast
    qed
    have sc: "?scores ! q = sum_list (map (?dist ?c) ?vals)" using q by (simp only: nth_map)
    have nonneg: "0 \<le> ?scores ! q" unfolding sc using terms by (rule sum_list_nonneg)
    have row_iff: "?dist ?c row = 0 \<longleftrightarrow> (\<forall>j \<in> set ?c. row ! j = row ! (?c ! 0))" for row
    proof
      assume "?dist ?c row = 0"
      then have "?rad ?c row = 0" by (simp only: real_sqrt_eq_0_iff)
      then have "(sqrt (sum_list (map (\<lambda>x. x\<^sup>2) (map ((!) row) ?c))))\<^sup>2
          - (sum_list (map ((!) row) ?c) / sqrt (real (length (map ((!) row) ?c))))\<^sup>2 = 0"
        by (simp only: l)
      from distance_radicand_zero [OF pos this]
      have eq: "\<forall>x \<in> set (map ((!) row) ?c).
          x = sum_list (map ((!) row) ?c) / real (length (map ((!) row) ?c))" .
      show "\<forall>j \<in> set ?c. row ! j = row ! (?c ! 0)"
      proof
        fix j assume j: "j \<in> set ?c"
        have "row ! j \<in> set (map ((!) row) ?c)" using j by simp
        moreover have "row ! (?c ! 0) \<in> set (map ((!) row) ?c)" using c0 by simp
        ultimately show "row ! j = row ! (?c ! 0)" using eq by metis
      qed
    next
      assume a: "\<forall>j \<in> set ?c. row ! j = row ! (?c ! 0)"
      have "\<forall>x \<in> set (map ((!) row) ?c). x = row ! (?c ! 0)"
      proof
        fix x assume "x \<in> set (map ((!) row) ?c)"
        then obtain j where "j \<in> set ?c" "x = row ! j" unfolding set_map by blast
        then show "x = row ! (?c ! 0)" using a by blast
      qed
      from distance_radicand_diagonal [OF pos this]
      have "?rad ?c row = 0" by (simp only: l)
      then show "?dist ?c row = 0" by (simp only: real_sqrt_zero)
    qed
    have "sum_list (map (?dist ?c) ?vals) = 0 \<longleftrightarrow> (\<forall>x \<in> set (map (?dist ?c) ?vals). x = 0)"
      using terms by (rule sum_list_nonneg_eq_0_iff)
    also have "\<dots> \<longleftrightarrow> (\<forall>row \<in> set ?vals. ?dist ?c row = 0)"
      unfolding set_map by blast
    also have "\<dots> \<longleftrightarrow> on_diagonal ?vals ?c"
      unfolding on_diagonal_def using row_iff by blast
    finally have "?scores ! q = 0 \<longleftrightarrow> on_diagonal ?vals ?c" by (simp only: sc)
    with nonneg show ?thesis by (rule conjI)
  qed
  have "length ?scores = length combs" by simp
  with ds main show ?thesis by blast
qed

text \<open>
  Whenever some candidate lies on the hyper-diagonal, the winner does too: it is the first
  such candidate in enumeration order, returned with the score 0.
\<close>

lemma diagonal_measure_winner_on_diagonal:
  assumes ia: "index_array d (length (df_columns ds)) combs" and d: "0 < d"
    and k: "k < length combs"
    and on: "on_diagonal (df_values ds) (combs ! k)"
  shows "\<exists>w \<le> k. on_diagonal (df_values ds) (combs ! w) \<and>
     (\<forall>q < w. \<not> on_diagonal (df_values ds) (combs ! q)) \<and>
     diagonal_measure_vectorized ds combs = Inr (map ((!) (df_columns ds)) (combs ! w), 0)"
proof -
  obtain scores where ds: "distance_scores ds combs = Inr scores"
    and len: "length scores = length combs"
    and sc: "\<forall>q < length combs. 0 \<le> scores ! q \<and>
        (scores ! q = 0 \<longleftrightarrow> on_diagonal (df_values ds) (combs ! q))"
    using distance_scores_zero_iff [OF ia d] by blast
  let ?w = "argmin scores"
  have ne: "scores \<noteq> []" using k len by auto
  have am: "?w < length scores" "\<forall>j < length scores. scores ! ?w \<le> scores ! j"
    "\<forall>j < ?w. scores ! ?w < scores ! j"
    using argmin_props [OF ne] by blast+
  have zero: "scores ! k = 0" using sc k on by blast
  have "scores ! ?w \<le> scores ! k" using am(2) k len by simp
  moreover have "0 \<le> scores ! ?w" using sc am(1) len by simp
  ultimately have wzero: "scores ! ?w = 0" using zero by linarith
  have wk: "?w \<le> k"
  proof (rule ccontr)
    assume "\<not> ?w \<le> k"
    then have "scores ! ?w < scores ! k" using am(3) by simp
    then show False using zero wzero by simp
  qed
  have won: "on_diagonal (df_values ds) (combs ! ?w)" using sc am(1) len wzero by simp
  have before: "\<forall>q < ?w. \<not> on_diagonal (df_values ds) (combs ! q)"
  proof (intro allI impI)
    fix q assume q: "q < ?w"
    then have "0 < scores ! q" using am(3) wzero by simp
    moreover have "q < length combs" using q am(1) len by simp
    ultimately show "\<not> on_diagonal (df_values ds) (combs ! q)" using sc by force
  qed
  have res: "diagonal_measure_vectorized ds combs =
      Inr (map ((!) (df_columns ds)) (combs ! ?w), 0)"
    unfolding diagonal_measure_vectorized_def ds using wzero by (simp add: Let_def)
  from wk won before res show ?thesis by blast
qed

text \<open>
  Claim C8. In a data set of ranked returns where the rows of one candidate quadruple lie on
  the hyper-diagonal (the four ranks are equal in every row) and those of no other candidate
  do, that quadruple has the total score 0, every other candidate has a positive score, and
  \<open>diagonal_measure_vectorized\<close> returns that quadruple with the score 0: the winner is the
  candidate of least summed distance.
\<close>

theorem diagonal_measure_on_diagonal:
  assumes wf: "wellformed ds"
    and ia: "index_array d (length (df_columns ds)) combs" and d: "0 < d"
    and k: "k < length combs"
    and on: "on_diagonal (df_values ds) (combs ! k)"
    and only: "\<forall>q < length combs. on_diagonal (df_values ds) (combs ! q) \<longrightarrow> q = k"
  shows "\<exists>scores. distance_scores ds combs = Inr scores \<and> length scores = length combs \<and>
     scores ! k = 0 \<and> (\<forall>q < length combs. q \<noteq> k \<longrightarrow> 0 < scores ! q) \<and>
     diagonal_measure_vectorized ds combs = Inr (map ((!) (df_columns ds)) (combs ! k), 0)"
proof -
  obtain scores where ds: "distance_scores ds combs = Inr scores"
    and len: "length scores = length combs"
    and sc: "\<forall>q < length combs. 0 \<le> scores ! q \<and>
        (scores ! q = 0 \<longleftrightarrow> on_diagonal (df_values ds) (combs ! q))"
    using distance_scores_zero_iff [OF ia d] by blast
  have zero: "scores ! k = 0" using sc k on by blast
  have others: "\<forall>q < length combs. q \<noteq> k \<longrightarrow> 0 < scores ! q"
  proof (intro allI impI)
    fix q assume q: "q < length combs" "q \<noteq> k"
    then have "\<not> on_diagonal (df_values ds) (combs ! q)" using only by blast
    then have "scores ! q \<noteq> 0" using sc q(1) by blast
    moreover have "0 \<le> scores ! q" using sc q(1) by blast
    ultimately show "0 < scores ! q" by simp
  qed
  let ?w = "argmin scores"
  have ne: "scores \<noteq> []" using k len by auto
  have am: "?w < length scores" "\<forall>j < length scores. scores ! ?w \<le> scores ! j"
    using argmin_props [OF ne] by blast+
  have "scores ! ?w \<le> scores ! k" using am(2) k len by simp
  then have "\<not> 0 < scores ! ?w" using zero by simp
  then have w: "?w = k" using others am(1) len by force
  have res: "diagonal_measure_vectorized ds combs =
      Inr (map ((!) (df_columns ds)) (combs ! k), 0)"
    unfolding diagonal_measure_vectorized_def ds using w zero by (simp add: Let_def)
  from ds len zero others res show ?thesis by blast
qed

lemma example_combs:
  "prepare_combinations_of_partners [''A'', ''B'', ''C'', ''D'', ''E''] =
     [[0, 1, 2, 3], [0, 1, 2, 4], [0, 1, 3, 4], [0, 2, 3, 4]]"
  by code_simp

theorem diagonal_measure_on_diagonal_witness:
  "wellformed example_ranks \<and>
   index_array 4 (length (df_columns example_ranks))
     (prepare_combinations_of_partners (df_columns example_ranks)) \<and>
   on_diagonal (df_values example_ranks)
     (prepare_combinations_of_partners (df_columns example_ranks) ! 1) \<and>
   \<not> on_diagonal (df_values example_ranks)
     (prepare_combinations_of_partners (df_columns example_ranks) ! 0) \<and>
   \<not> on_diagonal (df_values example_ranks)
     (prepare_combinations_of_partners (df_columns example_ranks) ! 2) \<and>
   \<not> on_diagonal (df_values example_ranks)
     (prepare_combinations_of_partners (df_columns example_ranks) ! 3) \<and>
   diagonal_measure_vectorized example_ranks
     (prepare_combinations_of_partners (df_columns example_ranks)) =
     Inr ([''A'', ''B'', ''C'', ''E''], 0)"
proof -
  let ?combs = "prepare_combinations_of_partners (df_columns example_ranks)"
  let ?vals = "df_values example_ranks"
  have a: "wellformed example_ranks" by code_simp
  have b: "index_array 4 (length (df_columns example_ranks)) ?combs" by code_simp
  have c: "(1::nat) < length ?combs" by code_simp
  have l: "length ?combs = 4" by code_simp
  have e: "on_diagonal ?vals (?combs ! 1)" by code_simp
  have n0: "\<not> on_diagonal ?vals (?combs ! 0)" by code_simp
  have n2: "\<not> on_diagonal ?vals (?combs ! 2)" by code_simp
  have n3: "\<not> on_diagonal ?vals (?combs ! 3)" by code_simp
  have u: "\<forall>q < length ?combs. on_diagonal ?vals (?combs ! q) \<longrightarrow> q = 1"
  proof (intro allI impI)
    fix q assume q: "q < length ?combs" and on: "on_diagonal ?vals (?combs ! q)"
    from q l consider "q = 0" | "q = 1" | "q = 2" | "q = 3" by linarith
    then show "q = 1" using on n0 n2 n3 by cases simp_all
  qed
  have names: "map ((!) (df_columns example_ranks)) (?combs ! 1) = [''A'', ''B'', ''C'', ''E'']"
    by code_simp
  from diagonal_measure_on_diagonal [OF a b _ c e u]
  have "diagonal_measure_vectorized example_ranks ?combs =
      Inr (map ((!) (df_columns example_ranks)) (?combs ! 1), 0)"
    by auto
  then show ?thesis using a b e n0 n2 n3 names by simp
qed

section \<open>Properties of the maximum-likelihood fitter\<close>

lemma np_sum_log:
  "np_sum (map np_log ds) =
     (if \<exists>d \<in> set ds. d < 0 then NaN
      else if \<exists>d \<in> set ds. d = 0 then NInf
      else Fin (sum_list (map ln ds)))"
proof (induction ds)
  case Nil
  show ?case by simp
next
  case (Cons d ds)
  consider (neg) "d < 0" | (zero) "d = 0" | (pos) "0 < d" by linarith
  then show ?case
  proof cases
    case neg
    then show ?thesis by (simp add: np_log_def)
  next
    case zero
    then show ?thesis using Cons.IH by (auto simp: np_log_def)
  next
    case pos
    then show ?thesis using Cons.IH by (auto simp: np_log_def)
  qed
qed

text \<open>
  Claim C3, as the code has it. \<open>log_ml\<close> has no check of the densities: when the fit
  succeeds and the density of the fitted copula is zero or negative at some data pair, the
  function returns normally, with the fitted copula and a log-likelihood sum that is
  \<open>nan\<close> if some density is negative and \<open>-inf\<close> otherwise.
\<close>

theorem log_ml_nonpositive_density:
  assumes fit: "fit_copula env x y copula_name nu = Inr my_copula"
    and nonpos: "\<exists>p \<in> set (zip x y). density env my_copula (fst p) (snd p) \<le> 0"
  shows "log_ml env x y copula_name nu =
     Inr (if \<exists>p \<in> set (zip x y). density env my_copula (fst p) (snd p) < 0 then NaN else NInf,
          my_copula)"
proof -
  let ?ds = "map (\<lambda>(xi, yi). density env my_copula xi yi) (zip x y)"
  have neg: "(\<exists>d \<in> set ?ds. d < 0) =
      (\<exists>p \<in> set (zip x y). density env my_copula (fst p) (snd p) < 0)"
    by (auto simp: case_prod_beta)
  have "\<exists>d \<in> set ?ds. d \<le> 0" using nonpos by (auto simp: case_prod_beta)
  then obtain d0 where d0: "d0 \<in> set ?ds" "d0 \<le> 0" by blast
  have zero: "\<exists>d \<in> set ?ds. d = 0" if "\<not> (\<exists>d \<in> set ?ds. d < 0)"
  proof -
    have "\<not> d0 < 0" using that d0(1) by blast
    then have "d0 = 0" using d0(2) by simp
    then show ?thesis using d0(1) by blast
  qed
  have "np_sum (map np_log ?ds) =
      (if \<exists>p \<in> set (zip x y). density env my_copula (fst p) (snd p) < 0 then NaN else NInf)"
    unfolding np_sum_log using neg zero by presburger
  then show ?thesis by (simp add: log_ml_def fit Let_def)
qed

theorem log_ml_nonpositive_density_witness:
  "fit_copula (stand_in 1 (\<lambda>u v. 0)) [1/10, 1/2] [1/5, 7/10] ''Gumbel'' None =
     Inr \<lparr>arg_copula_name = ''Gumbel'', arg_theta = Some 1, arg_cov = None, arg_nu = None\<rparr> \<and>
   log_ml (stand_in 1 (\<lambda>u v. 0)) [1/10, 1/2] [1/5, 7/10] ''Gumbel'' None =
     Inr (NInf, \<lparr>arg_copula_name = ''Gumbel'', arg_theta = Some 1, arg_cov = None, arg_nu = None\<rparr>)"
proof -
  let ?c = "\<lparr>arg_copula_name = ''Gumbel'', arg_theta = Some 1, arg_cov = None, arg_nu = None\<rparr>"
  have fit: "fit_copula (stand_in 1 (\<lambda>u v. 0)) [1/10, 1/2] [1/5, 7/10] ''Gumbel'' None = Inr ?c"
    by (simp add: fit_copula_def fit_theta_copula_def fit_gaussian_copula_def
        fit_student_copula_def ml_theta_hat_def theta_copula_names_def stand_in_def)
  have d: "\<exists>p \<in> set (zip [1/10, 1/2] [1/5, 7/10 :: real]).
      density (stand_in 1 (\<lambda>u v. 0)) ?c (fst p) (snd p) \<le> 0"
    by (intro bexI [of _ "(1/10, 1/5)"]) (simp_all add: stand_in_def)
  show ?thesis
    using log_ml_nonpositive_density [OF fit d] fit by (simp add: stand_in_def)
qed

text \<open>
  A fitted Gumbel copula whose density vanishes at the data: the call returns \<open>-inf\<close> and
  the copula, and raises nothing.
\<close>

theorem log_ml_zero_density_counterexample:
  "log_ml (stand_in 1 (\<lambda>u v. 0)) [1/10, 1/2] [1/5, 7/10] ''Gumbel'' None =
     Inr (NInf, \<lparr>arg_copula_name = ''Gumbel'', arg_theta = Some 1, arg_cov = None, arg_nu = None\<rparr>)"
  by (simp add: log_ml_def fit_copula_def fit_theta_copula_def fit_gaussian_copula_def
      fit_student_copula_def ml_theta_hat_def theta_copula_names_def stand_in_def np_log_def)

text \<open>
  Claim C5, as the code has it. \<open>ml_theta_hat\<close> has no check of the family name: for
  every name, \<open>Gaussian\<close> and \<open>Student\<close> included, it creates the copula by name with
  the dummy identity covariance and returns what that copula's \<open>theta_hat\<close> gives at
  Kendall's tau. It fails only with a failure of \<open>kendalltau\<close>, of the switcher or of
  \<open>theta_hat\<close>.
\<close>

theorem ml_theta_hat_no_family_check:
  "(kendalltau env x y = Inr tau \<and>
    choose_copula env \<lparr>arg_copula_name = copula_name, arg_theta = None,
                        arg_cov = Some dud_cov, arg_nu = None\<rparr> = Inr my_copula
      \<longrightarrow> ml_theta_hat env x y copula_name = theta_hat env my_copula tau) \<and>
   (ml_theta_hat env x y copula_name = Inl e \<longrightarrow>
      kendalltau env x y = Inl e \<or>
      choose_copula env \<lparr>arg_copula_name = copula_name, arg_theta = None,
                          arg_cov = Some dud_cov, arg_nu = None\<rparr> = Inl e \<or>
      (\<exists>t c. kendalltau env x y = Inr t \<and>
         choose_copula env \<lparr>arg_copula_name = copula_name, arg_theta = None,
                             arg_cov = Some dud_cov, arg_nu = None\<rparr> = Inr c \<and>
         theta_hat env c t = Inl e))"
  by (auto simp: ml_theta_hat_def split: sum.splits)

theorem ml_theta_hat_no_family_check_witness:
  "ml_theta_hat (stand_in 1 (\<lambda>u v. 1)) [1/10, 1/2] [1/5, 7/10] ''Student'' = Inr 1"
  using ml_theta_hat_no_family_check [of "stand_in 1 (\<lambda>u v. 1)" "[1/10, 1/2]" "[1/5, 7/10]" 1
      "''Student''" "\<lparr>arg_copula_name = ''Student'', arg_theta = None,
                        arg_cov = Some dud_cov, arg_nu = None\<rparr>"]
  by (simp add: stand_in_def)

text \<open>
  With a switcher that builds a copula for the name \<open>Gaussian\<close>, the call returns a
  parameter.
\<close>

theorem ml_theta_hat_gaussian_counterexample:
  "ml_theta_hat (stand_in 1 (\<lambda>u v. 1)) [1/10, 1/2] [1/5, 7/10] ''Gaussian'' = Inr 1"
  by (simp add: ml_theta_hat_def stand_in_def)

section \<open>Properties of the covariance matrix\<close>

lemma enum_tuples: "enumerate exponent_tuples =
  [(0, (1,1,1,1)), (1, (1,1,1,2)), (2, (1,1,2,1)), (3, (1,1,2,2)),
   (4, (1,2,1,1)), (5, (1,2,1,2)), (6, (1,2,2,1)), (7, (1,2,2,2)),
   (8, (2,1,1,1)), (9, (2,1,1,2)), (10, (2,1,2,1)), (11, (2,1,2,2)),
   (12, (2,2,1,1)), (13, (2,2,1,2)), (14, (2,2,2,1)), (15, (2,2,2,2))]"
  by code_simp

lemma upper_triangle_closed:
  "upper_triangle nquad =
     map (\<lambda>(i, l1). map (\<lambda>(j, l2). if j < i then 0
            else nquad (\<lambda>u1 u2 u3 u4. variance_integral_func u1 u2 u3 u4 l1 l2))
          (enumerate exponent_tuples)) (enumerate exponent_tuples)"
  unfolding upper_triangle_def enum_tuples
  by (simp add: set_entry_def numeral_eq_Suc)


lemma length_exponent_tuples: "length exponent_tuples = 16"
  by (simp add: exponent_tuples_def)

lemma upper_triangle_nth:
  assumes "i < 16" and "j < 16"
  shows "upper_triangle nquad ! i ! j =
     (if j < i then 0
      else nquad (\<lambda>u1 u2 u3 u4.
             variance_integral_func u1 u2 u3 u4 (exponent_tuples ! i) (exponent_tuples ! j)))"
  using assms
  by (simp add: upper_triangle_closed enumerate_def length_exponent_tuples)

lemma mirror_lower_nth:
  assumes "i < 16" and "j < 16"
  shows "mirror_lower M ! i ! j = (if j < i then M ! j ! i else M ! i ! j)"
  using assms by (simp add: mirror_lower_def)

lemma mirror_lower_shape:
  "length (mirror_lower M) = 16" "\<forall>row \<in> set (mirror_lower M). length row = 16"
  by (auto simp: mirror_lower_def)

text \<open>
  Claim C7. Only the entries on and above the diagonal are computed by integration: the
  loop leaves the lower triangle at zero, and it is then filled from the transpose. The
  matrix passed to the inversion has 16 rows of 16 entries, its upper triangle holds the
  integrals of the products for the exponent tuples in enumeration order, and it is
  symmetric. The function returns what the inversion returns for that matrix, so a failure
  of the inversion (numpy raises on a singular matrix) is the failure of the function.
\<close>

theorem co_variance_matrix_symmetric:
  "length (mirror_lower (upper_triangle nquad)) = 16 \<and>
   (\<forall>row \<in> set (mirror_lower (upper_triangle nquad)). length row = 16) \<and>
   (\<forall>i < 16. \<forall>j < i. upper_triangle nquad ! i ! j = 0) \<and>
   (\<forall>i < 16. \<forall>j < 16. i \<le> j \<longrightarrow>
      mirror_lower (upper_triangle nquad) ! i ! j =
        nquad (\<lambda>u1 u2 u3 u4.
          variance_integral_func u1 u2 u3 u4 (exponent_tuples ! i) (exponent_tuples ! j))) \<and>
   (\<forall>i < 16. \<forall>j < 16.
      mirror_lower (upper_triangle nquad) ! i ! j = mirror_lower (upper_triangle nquad) ! j ! i) \<and>
   get_co_variance_matrix nquad linalg_inv = linalg_inv (mirror_lower (upper_triangle nquad)) \<and>
   (\<forall>e. linalg_inv (mirror_lower (upper_triangle nquad)) = Inl e \<longrightarrow>
      get_co_variance_matrix nquad linalg_inv = Inl e)"
proof -
  let ?U = "upper_triangle nquad"
  let ?M = "mirror_lower ?U"
  have lower: "\<forall>i < 16. \<forall>j < i. ?U ! i ! j = 0"
    by (simp add: upper_triangle_nth)
  have upper: "\<forall>i < 16. \<forall>j < 16. i \<le> j \<longrightarrow> ?M ! i ! j =
      nquad (\<lambda>u1 u2 u3 u4.
        variance_integral_func u1 u2 u3 u4 (exponent_tuples ! i) (exponent_tuples ! j))"
    by (simp add: mirror_lower_nth upper_triangle_nth)
  have sym: "\<forall>i < 16. \<forall>j < 16. ?M ! i ! j = ?M ! j ! i"
    by (auto simp: mirror_lower_nth)
  have res: "get_co_variance_matrix nquad linalg_inv = linalg_inv ?M"
    by (simp add: get_co_variance_matrix_def)
  show ?thesis
    using mirror_lower_shape [of ?U] lower upper sym res by presburger
qed

theorem co_variance_matrix_symmetric_witness:
  "mirror_lower (upper_triangle midpoint_rule) ! 5 ! 3 =
     midpoint_rule (\<lambda>u1 u2 u3 u4. variance_integral_func u1 u2 u3 u4
        (exponent_tuples ! 3) (exponent_tuples ! 5)) \<and>
   mirror_lower (upper_triangle midpoint_rule) ! 5 ! 3 =
     mirror_lower (upper_triangle midpoint_rule) ! 3 ! 5 \<and>
   get_co_variance_matrix midpoint_rule (\<lambda>A. Inl LinAlgError) = Inl LinAlgError"
proof -
  have a: "(3::nat) < 16" "(5::nat) < 16" "(3::nat) \<le> 5" by simp_all
  show ?thesis
    using co_variance_matrix_symmetric [of midpoint_rule "\<lambda>A. Inl LinAlgError"] a
    by metis
qed

section \<open>Properties of the top-50 lists\<close>

lemma insort_key_last:
  "\<forall>z \<in> set S. f z < f x \<Longrightarrow> insort_key f x S = S @ [x]"
  for f :: "'b \<Rightarrow> real"
  by (induction S) auto

lemma insort_key_before_last:
  "f u < f x \<Longrightarrow> insort_key f u (T @ [x]) = insort_key f u T @ [x]"
  for f :: "'b \<Rightarrow> real"
  by (induction T) auto

lemma foldr_insort_before_last:
  "\<forall>u \<in> set us. f u < f x \<Longrightarrow>
     foldr (insort_key f) us (S @ [x]) = foldr (insort_key f) us S @ [x]"
  for f :: "'b \<Rightarrow> real"
  by (induction us) (simp_all add: insort_key_before_last)

lemma sort_key_largest:
  fixes f :: "'b \<Rightarrow> real"
  assumes "\<forall>z \<in> set us \<union> set vs. f z < f x"
  shows "sort_key f (us @ x # vs) = sort_key f (us @ vs) @ [x]"
proof -
  have "insort_key f x (sort_key f vs) = sort_key f vs @ [x]"
    using assms by (intro insort_key_last) simp
  then have "sort_key f (us @ x # vs) = foldr (insort_key f) us (sort_key f vs @ [x])"
    by (simp add: sort_key_def)
  also have "\<dots> = foldr (insort_key f) us (sort_key f vs) @ [x]"
    using assms by (intro foldr_insort_before_last) simp
  finally show ?thesis by (simp add: sort_key_def)
qed

text \<open>
  When the values of a column are pairwise different and the asset's own entry is the
  largest of them, the sorted column starts with it, and the list of tickers is made of the
  other entries, sorted by correlation in descending order and cut after 50.
\<close>

lemma tickers_list_self_largest:
  assumes c: "c < length col"
    and different: "distinct (map snd col)"
    and largest: "\<forall>r < length col. r \<noteq> c \<longrightarrow> snd (col ! r) < snd (col ! c)"
  shows "tickers_list col = map fst (take 50 (sort_values_desc (take c col @ drop (Suc c) col)))"
proof -
  let ?xs = "take c col" and ?ys = "drop (Suc c) col"
  have col: "col = ?xs @ col ! c # ?ys"
    using c by (simp add: id_take_nth_drop)
  have less: "\<forall>z \<in> set (rev ?ys) \<union> set (rev ?xs). snd z < snd (col ! c)"
  proof
    fix z assume "z \<in> set (rev ?ys) \<union> set (rev ?xs)"
    then consider "z \<in> set ?xs" | "z \<in> set ?ys" by auto
    then show "snd z < snd (col ! c)"
    proof cases
      case 1
      then obtain r where "r < c" "z = col ! r"
        using c by (auto simp: in_set_conv_nth)
      then show ?thesis using largest c by simp
    next
      case 2
      then obtain r where "r < length col - Suc c" "z = col ! (Suc c + r)"
        by (auto simp: in_set_conv_nth)
      then show ?thesis using largest by simp
    qed
  qed
  have "rev col = rev ?ys @ col ! c # rev ?xs"
    by (subst col) simp
  then have "sort_key snd (rev col) = sort_key snd (rev ?ys @ rev ?xs) @ [col ! c]"
    using sort_key_largest [OF less] by simp
  then have "sort_values_desc col = col ! c # sort_values_desc (?xs @ ?ys)"
    by (simp add: sort_values_desc_def)
  then show ?thesis by (simp add: tickers_list_def)
qed

lemma sort_values_desc_sorted: "sorted (rev (map snd (sort_values_desc col)))"
  by (simp add: sort_values_desc_def rev_map [symmetric])

lemma sort_values_desc_mset: "mset (sort_values_desc col) = mset col"
  by (simp add: sort_values_desc_def)

text \<open>The lists for the sample correlation matrix, where no asset ties with itself.\<close>

lemma top_50_tickers_example:
  "top_50_tickers example_corr =
     [(''A'', [''B'', ''C'', ''E'', ''D'']), (''B'', [''A'', ''C'', ''D'', ''E'']),
      (''C'', [''A'', ''B'', ''E'', ''D'']), (''D'', [''E'', ''B'', ''C'', ''A'']),
      (''E'', [''D'', ''C'', ''A'', ''B''])]"
  by code_simp

text \<open>
  Claim C9 at two perfectly correlated assets \<open>B\<close> and \<open>A\<close>, in this column order.
  The sorted column of \<open>A\<close> starts with \<open>B\<close>, so dropping its first entry removes
  \<open>B\<close>: the list of \<open>A\<close> is \<open>A\<close> itself, and the other asset is missing from it.
\<close>

theorem top_50_tickers_perfectly_correlated:
  "top_50_tickers \<lparr>df_columns = [''B'', ''A''], df_values = [[1, 1], [1, 1]]\<rparr> =
     [(''B'', [''A'']), (''A'', [''A''])]"
  by code_simp

end
